theory Spec2Isabelle
  imports Main
begin

section \<open>Chatterbox: the browser client (Frontend/app.js) and the room relay\<close>

text \<open>
  The client is a single-threaded event-driven program: module-level variables, a DOM, and
  handlers run to completion by the browser's event loop. It is embedded as a record of
  the state (the script's variables, the parts of the DOM the script reads or writes, and
  the browser objects it owns: sockets and timers), one HOL function per source function,
  and a function \<open>step\<close> that runs the handlers registered for one event.
\<close>

subsection \<open>Strings\<close>

text \<open>
  A JavaScript string is a sequence of code units; a \<^typ>\<open>char\<close> stands for a code unit
  below 256. The white space of \<open>String.prototype.trim\<close> and of the regular expression
  class \<open>\s\<close> is the same set; below 256 it is TAB, LF, VT, FF, CR, SPACE and NBSP.
\<close>

definition is_space :: "char \<Rightarrow> bool" where
  "is_space c = (c \<in> set [CHR 0x09, CHR 0x0A, CHR 0x0B, CHR 0x0C, CHR 0x0D, CHR 0x20, CHR 0xA0])"

definition trim :: "string \<Rightarrow> string" where
  "trim v = rev (dropWhile is_space (rev (dropWhile is_space v)))"

text \<open>The character class \<open>[a-zA-Z0-9_]\<close>.\<close>

definition is_word :: "char \<Rightarrow> bool" where
  "is_word c = (c \<in> set ''abcdefghijklmnopqrstuvwxyzABCDEFGHIJKLMNOPQRSTUVWXYZ0123456789_'')"

text \<open>\<open>value.replace(/[^a-zA-Z0-9_\s]/g, '')\<close>: every character outside the class is deleted.\<close>

definition username_filter :: "string \<Rightarrow> string" where
  "username_filter v = filter (\<lambda>c. is_word c \<or> is_space c) v"

text \<open>\<open>value.replace(/\s{2,}/g, ' ')\<close>: each maximal run of two or more white-space
  characters becomes one space; a single white-space character stays as it is.\<close>

function collapse_spaces :: "string \<Rightarrow> string" where
  "collapse_spaces [] = []"
| "collapse_spaces (c # cs) =
     (if is_space c \<and> takeWhile is_space cs \<noteq> []
      then CHR 0x20 # collapse_spaces (dropWhile is_space cs)
      else c # collapse_spaces cs)"
  by pat_completeness auto
termination
  by (relation "measure length") (auto simp: less_Suc_eq_le length_dropWhile_le)

text \<open>\<open>String(n)\<close> for a non-negative integer: its decimal digits.\<close>

definition digit :: "nat \<Rightarrow> char" where
  "digit d = ''0123456789'' ! (d mod 10)"

fun String :: "nat \<Rightarrow> string" where
  "String n = (if n < 10 then [digit n] else String (n div 10) @ [digit (n mod 10)])"

text \<open>\<open>s.padStart(n, c)\<close> with a one-character pad string.\<close>

definition padStart :: "nat \<Rightarrow> char \<Rightarrow> string \<Rightarrow> string" where
  "padStart n c v = replicate (n - length v) c @ v"

subsection \<open>The wall clock\<close>

text \<open>
  A \<open>Date\<close> is its local time value, in milliseconds. ECMAScript defines
  \<open>getHours\<close> as \<open>floor(t / msPerHour) modulo 24\<close> and \<open>getMinutes\<close> as
  \<open>floor(t / msPerMinute) modulo 60\<close>.
\<close>

type_synonym date = int

definition getHours :: "date \<Rightarrow> nat" where
  "getHours t = nat ((t div 3600000) mod 24)"

definition getMinutes :: "date \<Rightarrow> nat" where
  "getMinutes t = nat ((t div 60000) mod 60)"

definition getCurrentTime :: "date \<Rightarrow> string" where
  "getCurrentTime now =
     (let hours = padStart 2 (CHR ''0'') (String (getHours now));
          minutes = padStart 2 (CHR ''0'') (String (getMinutes now))
      in hours @ '':'' @ minutes)"

subsection \<open>Wire envelopes\<close>

text \<open>
  What the client sends is \<open>JSON.stringify\<close> of an object literal with string fields: an
  envelope is the list of its fields, in the literal's order.
\<close>

type_synonym envelope = "(string \<times> string) list"

definition join_envelope :: "string \<Rightarrow> string \<Rightarrow> envelope" where
  "join_envelope username room = [(''username'', username), (''room'', room)]"

definition chat_envelope :: "string \<Rightarrow> envelope" where
  "chat_envelope message = [(''type'', ''chat''), (''message'', message)]"

definition typing_envelope :: envelope where
  "typing_envelope = [(''type'', ''typing'')]"

definition stop_typing_envelope :: envelope where
  "stop_typing_envelope = [(''type'', ''stop_typing'')]"

text \<open>
  What the client receives, after \<open>JSON.parse\<close>, by the value of \<open>data.type\<close>. A field
  the handlers test for absence is an option; \<open>Unknown\<close> is any other \<open>type\<close>.
\<close>

datatype data =
    Chat string string "string option"
  | System string
  | TypingUsers "string list option"
  | Stats nat
  | Unknown

subsection \<open>Browser objects\<close>

datatype ready_state = CONNECTING | OPEN | CLOSING | CLOSED

text \<open>A \<open>WebSocket\<close>: its \<open>readyState\<close> and the frames transmitted on it so far.\<close>

record websocket =
  readyState :: ready_state
  sent :: "envelope list"

datatype js_error = TypeError | InvalidStateError | SyntaxError

text \<open>The four closures the script passes to \<open>setTimeout\<close>.\<close>

datatype callback =
    ResetBorder
  | HideStatus
  | Reconnect
  | StopTyping

text \<open>What the script appends to \<open>messagesList\<close>.\<close>

record chat_message =
  own :: bool
  avatar :: string
  usernameEl :: string
  timeEl :: string
  bubble :: string

datatype item = MessageDiv chat_message | SystemDiv string

subsection \<open>The state\<close>

text \<open>
  \<open>socket\<close> is an index into \<open>sockets\<close>, the sockets created so far (\<open>None\<close> is
  \<open>null\<close>). \<open>timers\<close> holds the pending timeouts as (handle, delay in ms, callback);
  handles are positive integers, so a stored handle is always truthy. \<open>uncaught\<close>
  collects the exceptions that escaped a handler, \<open>alerts\<close> the texts shown by \<open>alert\<close>.
  Focus and scroll position are not part of the state.
\<close>

record client =
  socket :: "nat option"
  currentUsername :: string
  currentRoom :: string
  isTyping :: bool
  typingTimeout :: "nat option"
  sockets :: "websocket list"
  timers :: "(nat \<times> nat \<times> callback) list"
  nextTimer :: nat
  uncaught :: "js_error list"
  alerts :: "string list"
  usernameInput :: string
  usernameBorder :: string
  roomSelect :: string
  messageInput :: string
  sendBtnDisabled :: bool
  loginScreenHidden :: bool
  chatScreenHidden :: bool
  messagesList :: "item list"
  typingIndicatorHidden :: bool
  typingText :: string
  onlineCount :: string
  currentRoomEl :: string
  statusText :: string
  connectionStatusHidden :: bool
  spinnerDisplay :: string
  roomModalHidden :: bool

text \<open>
  A function that can throw returns \<open>Inl (e, s)\<close>, the exception with the state as mutated
  before the throw, or \<open>Inr s\<close> when it returns normally.
\<close>

type_synonym result = "(js_error \<times> client) + client"

text \<open>The \<open>name\<close> field of \<open>roomConfig\<close>; the \<open>emoji\<close> field is never read.\<close>

definition roomConfig :: "(string \<times> string) list" where
  "roomConfig =
     [(''general'', ''General Chat''), (''tech'', ''Tech Talk''),
      (''fun'', ''Fun & Games''), (''random'', ''Random'')]"

subsection \<open>Timers and sockets\<close>

definition setTimeout :: "callback \<Rightarrow> nat \<Rightarrow> client \<Rightarrow> nat \<times> client" where
  "setTimeout cb delay s =
     (nextTimer s, s\<lparr>timers := timers s @ [(nextTimer s, delay, cb)], nextTimer := Suc (nextTimer s)\<rparr>)"

definition clearTimeout :: "nat \<Rightarrow> client \<Rightarrow> client" where
  "clearTimeout t s = s\<lparr>timers := filter (\<lambda>(h, _). h \<noteq> t) (timers s)\<rparr>"

text \<open>\<open>socket && socket.readyState === WebSocket.OPEN\<close>.\<close>

definition socket_open :: "client \<Rightarrow> bool" where
  "socket_open s =
     (case socket s of None \<Rightarrow> False
      | Some i \<Rightarrow> i < length (sockets s) \<and> readyState (sockets s ! i) = OPEN)"

text \<open>
  \<open>socket.send(JSON.stringify(env))\<close> on the module variable \<open>socket\<close>: a \<open>TypeError\<close> on
  \<open>null\<close>, an \<open>InvalidStateError\<close> while the socket is connecting, transmission when it
  is open, and a silent drop once it is closing or closed.
\<close>

definition socket_send :: "envelope \<Rightarrow> client \<Rightarrow> result" where
  "socket_send env s =
     (case socket s of
        None \<Rightarrow> Inl (TypeError, s)
      | Some i \<Rightarrow>
          if length (sockets s) \<le> i then Inl (TypeError, s)
          else (case readyState (sockets s ! i) of
                  CONNECTING \<Rightarrow> Inl (InvalidStateError, s)
                | OPEN \<Rightarrow>
                    Inr (s\<lparr>sockets :=
                           (sockets s)[i := (sockets s ! i)\<lparr>sent := sent (sockets s ! i) @ [env]\<rparr>]\<rparr>)
                | CLOSING \<Rightarrow> Inr s
                | CLOSED \<Rightarrow> Inr s))"

text \<open>\<open>if (socket) socket.close()\<close>: an open or connecting socket starts closing.\<close>

definition socket_close :: "client \<Rightarrow> client" where
  "socket_close s =
     (case socket s of
        None \<Rightarrow> s
      | Some i \<Rightarrow>
          if length (sockets s) \<le> i then s
          else (case readyState (sockets s ! i) of
                  CLOSED \<Rightarrow> s
                | _ \<Rightarrow> s\<lparr>sockets := (sockets s)[i := (sockets s ! i)\<lparr>readyState := CLOSING\<rparr>]\<rparr>))"

subsection \<open>UI helpers\<close>

definition showConnectionStatus :: "string \<Rightarrow> bool \<Rightarrow> client \<Rightarrow> client" where
  "showConnectionStatus message showSpinner s =
     s\<lparr>statusText := message, connectionStatusHidden := False,
       spinnerDisplay := (if showSpinner then ''block'' else ''none'')\<rparr>"

text \<open>
  \<open>roomConfig\<close> is an object literal, so a key it does not have itself is looked up in
  \<open>Object.prototype\<close>. The functions found there have a \<open>name\<close>, which is the key, but
  for \<open>constructor\<close>, which is \<open>Object\<close>; \<open>__proto__\<close> is \<open>Object.prototype\<close> itself,
  whose \<open>name\<close> is \<open>undefined\<close>, and \<open>textContent\<close> takes \<open>undefined\<close> as the empty
  string.
\<close>

definition inherited :: "(string \<times> string) list" where
  "inherited =
     [(''constructor'', ''Object''), (''__defineGetter__'', ''__defineGetter__''),
      (''__defineSetter__'', ''__defineSetter__''), (''hasOwnProperty'', ''hasOwnProperty''),
      (''__lookupGetter__'', ''__lookupGetter__''), (''__lookupSetter__'', ''__lookupSetter__''),
      (''isPrototypeOf'', ''isPrototypeOf''), (''propertyIsEnumerable'', ''propertyIsEnumerable''),
      (''toString'', ''toString''), (''valueOf'', ''valueOf''), (''__proto__'', []),
      (''toLocaleString'', ''toLocaleString'')]"

text \<open>What \<open>roomConfig[room].name\<close> puts into \<open>textContent\<close>; \<open>None\<close> when
  \<open>roomConfig[room]\<close> is \<open>undefined\<close>.\<close>

definition roomConfig_name :: "string \<Rightarrow> string option" where
  "roomConfig_name room =
     (case map_of roomConfig room of
        Some name \<Rightarrow> Some name
      | None \<Rightarrow> map_of inherited room)"

text \<open>\<open>roomConfig[currentRoom].name\<close> throws a \<open>TypeError\<close> when \<open>roomConfig[currentRoom]\<close>
  is \<open>undefined\<close>.\<close>

definition updateRoomUI :: "client \<Rightarrow> result" where
  "updateRoomUI s =
     (case roomConfig_name (currentRoom s) of
        None \<Rightarrow> Inl (TypeError, s)
      | Some name \<Rightarrow> Inr (s\<lparr>currentRoomEl := name\<rparr>))"

definition updateOnlineCount :: "nat \<Rightarrow> client \<Rightarrow> client" where
  "updateOnlineCount count s =
     (let plural = (if count = 1 then [] else ''s'')
      in s\<lparr>onlineCount := String count @ '' user'' @ plural @ '' online''\<rparr>)"

definition openRoomModal :: "client \<Rightarrow> client" where
  "openRoomModal s = s\<lparr>roomModalHidden := False\<rparr>"

definition closeRoomModal :: "client \<Rightarrow> client" where
  "closeRoomModal s = s\<lparr>roomModalHidden := True\<rparr>"

subsection \<open>Connecting\<close>

definition connectWebSocket :: "client \<Rightarrow> client" where
  "connectWebSocket s =
     (let s1 = showConnectionStatus ''Connecting...'' True s
      in s1\<lparr>sockets := sockets s1 @ [\<lparr>readyState = CONNECTING, sent = []\<rparr>],
            socket := Some (length (sockets s1))\<rparr>)"

text \<open>The \<open>onopen\<close>, \<open>onerror\<close> and \<open>onclose\<close> closures. They are the same for every
  socket, and \<open>onopen\<close> sends on the module variable \<open>socket\<close>.\<close>

definition onopen :: "client \<Rightarrow> result" where
  "onopen s =
     (case socket_send (join_envelope (currentUsername s) (currentRoom s)) s of
        Inl x \<Rightarrow> Inl x
      | Inr s1 \<Rightarrow> Inr (snd (setTimeout HideStatus 2000 (showConnectionStatus ''Connected'' False s1))))"

definition onerror :: "client \<Rightarrow> client" where
  "onerror s = showConnectionStatus ''Connection error'' False s"

definition onclose :: "client \<Rightarrow> client" where
  "onclose s =
     snd (setTimeout Reconnect 2000 (showConnectionStatus ''Disconnected - Reconnecting...'' True s))"

subsection \<open>Login\<close>

definition handleJoin :: "client \<Rightarrow> result" where
  "handleJoin s =
     (let username = trim (usernameInput s); room = roomSelect s
      in if username = [] then
           Inr (snd (setTimeout ResetBorder 1000 (s\<lparr>usernameBorder := ''var(--danger)''\<rparr>)))
         else if length username > 20 then
           Inr (s\<lparr>alerts := alerts s @ [''Username must be 20 characters or less'']\<rparr>)
         else
           (case updateRoomUI (s\<lparr>currentUsername := username, currentRoom := room,
                                 loginScreenHidden := True, chatScreenHidden := False\<rparr>) of
              Inl x \<Rightarrow> Inl x
            | Inr s1 \<Rightarrow> Inr (connectWebSocket s1)))"

subsection \<open>Message handling\<close>

definition addChatMessage :: "string \<Rightarrow> string \<Rightarrow> string option \<Rightarrow> date \<Rightarrow> client \<Rightarrow> client" where
  "addChatMessage username message timestamp now s =
     (let isOwn = (username = currentUsername s);
          messageDiv = \<lparr>own = isOwn,
                        avatar = take 1 username,
                        usernameEl = (if isOwn then ''You'' else username),
                        timeEl = (case timestamp of
                                    None \<Rightarrow> getCurrentTime now
                                  | Some ts \<Rightarrow> if ts = [] then getCurrentTime now else ts),
                        bubble = message\<rparr>
      in s\<lparr>messagesList := messagesList s @ [MessageDiv messageDiv]\<rparr>)"

definition addSystemMessage :: "string \<Rightarrow> client \<Rightarrow> client" where
  "addSystemMessage message s = s\<lparr>messagesList := messagesList s @ [SystemDiv message]\<rparr>"

fun updateTypingIndicator :: "string list option \<Rightarrow> client \<Rightarrow> client" where
  "updateTypingIndicator None s = s\<lparr>typingIndicatorHidden := True\<rparr>"
| "updateTypingIndicator (Some []) s = s\<lparr>typingIndicatorHidden := True\<rparr>"
| "updateTypingIndicator (Some [u0]) s =
     s\<lparr>typingIndicatorHidden := False, typingText := u0 @ '' is typing...''\<rparr>"
| "updateTypingIndicator (Some [u0, u1]) s =
     s\<lparr>typingIndicatorHidden := False, typingText := u0 @ '' and '' @ u1 @ '' are typing...''\<rparr>"
| "updateTypingIndicator (Some (u0 # u1 # us)) s =
     s\<lparr>typingIndicatorHidden := False,
       typingText := u0 @ '', '' @ u1 @ '' and '' @ String (length (u0 # u1 # us) - 2)
                     @ '' others are typing...''\<rparr>"

fun handleMessage :: "data \<Rightarrow> date \<Rightarrow> client \<Rightarrow> client" where
  "handleMessage (Chat username message timestamp) now s = addChatMessage username message timestamp now s"
| "handleMessage (System message) now s = addSystemMessage message s"
| "handleMessage (TypingUsers users) now s = updateTypingIndicator users s"
| "handleMessage (Stats online) now s = updateOnlineCount online s"
| "handleMessage Unknown now s = s"

text \<open>\<open>onmessage\<close>: \<open>JSON.parse\<close> throws a \<open>SyntaxError\<close> on a frame that is not JSON
  (\<open>None\<close>).\<close>

definition onmessage :: "data option \<Rightarrow> date \<Rightarrow> client \<Rightarrow> result" where
  "onmessage frame now s =
     (case frame of None \<Rightarrow> Inl (SyntaxError, s) | Some d \<Rightarrow> Inr (handleMessage d now s))"

subsection \<open>Typing indicator\<close>

definition handleTyping :: "client \<Rightarrow> result" where
  "handleTyping s =
     (let message = trim (messageInput s);
          s1 = s\<lparr>sendBtnDisabled := (message = [])\<rparr>
      in if \<not> socket_open s1 then Inr s1
         else
           (case (if message \<noteq> [] \<and> \<not> isTyping s1
                  then socket_send typing_envelope (s1\<lparr>isTyping := True\<rparr>)
                  else Inr s1) of
              Inl x \<Rightarrow> Inl x
            | Inr s2 \<Rightarrow>
                (let s3 = (case typingTimeout s2 of None \<Rightarrow> s2 | Some t \<Rightarrow> clearTimeout t s2);
                     (t, s4) = setTimeout StopTyping 1000 s3
                 in Inr (s4\<lparr>typingTimeout := Some t\<rparr>))))"

text \<open>What a timeout runs when it fires.\<close>

fun run_callback :: "callback \<Rightarrow> client \<Rightarrow> result" where
  "run_callback ResetBorder s = Inr (s\<lparr>usernameBorder := []\<rparr>)"
| "run_callback HideStatus s = Inr (s\<lparr>connectionStatusHidden := True\<rparr>)"
| "run_callback Reconnect s = (if \<not> chatScreenHidden s then Inr (connectWebSocket s) else Inr s)"
| "run_callback StopTyping s =
     (if isTyping s then socket_send stop_typing_envelope (s\<lparr>isTyping := False\<rparr>) else Inr s)"

subsection \<open>Sending messages\<close>

definition sendMessage :: "date \<Rightarrow> client \<Rightarrow> result" where
  "sendMessage now s =
     (let message = trim (messageInput s)
      in if message = [] \<or> \<not> socket_open s then Inr s
         else
           (case socket_send (chat_envelope message) s of
              Inl x \<Rightarrow> Inl x
            | Inr s1 \<Rightarrow>
                (let s2 = addChatMessage (currentUsername s1) message (Some (getCurrentTime now)) now s1;
                     s3 = s2\<lparr>messageInput := [], sendBtnDisabled := True\<rparr>
                 in case (if isTyping s3
                          then socket_send stop_typing_envelope (s3\<lparr>isTyping := False\<rparr>)
                          else Inr s3) of
                      Inl x \<Rightarrow> Inl x
                    | Inr s4 \<Rightarrow>
                        Inr (case typingTimeout s4 of None \<Rightarrow> s4 | Some t \<Rightarrow> clearTimeout t s4))))"

subsection \<open>Rooms and leaving\<close>

definition switchRoom :: "string \<Rightarrow> client \<Rightarrow> result" where
  "switchRoom newRoom s =
     (if newRoom = currentRoom s then Inr s
      else
        (case updateRoomUI (s\<lparr>currentRoom := newRoom, messagesList := []\<rparr>) of
           Inl x \<Rightarrow> Inl x
         | Inr s1 \<Rightarrow> Inr (connectWebSocket (socket_close s1))))"

definition handleLeave :: "bool \<Rightarrow> client \<Rightarrow> client" where
  "handleLeave confirmed s =
     (if confirmed then
        (socket_close s)\<lparr>messagesList := [], messageInput := [], usernameInput := [],
                         currentUsername := [], chatScreenHidden := True,
                         loginScreenHidden := False\<rparr>
      else s)"

subsection \<open>The event loop\<close>

text \<open>
  One constructor per event the script listens to. A user event carries what the user
  supplies (the edited value of a field, the answer to \<open>confirm\<close>), a socket event the
  socket it is dispatched on, and an event whose handler reads the clock the time it reads.
\<close>

datatype event =
    UsernameInput string
  | RoomSelect string
  | JoinClick
  | MessageInput string
  | SendClick date
  | RoomSwitchClick
  | CloseModalClick
  | RoomItemClick string
  | LeaveClick bool
  | SocketOpen nat
  | SocketMessage nat "data option" date
  | SocketError nat
  | SocketClose nat
  | TimerFire nat

text \<open>An exception that escapes a handler is reported and the event loop goes on.\<close>

definition settle :: "result \<Rightarrow> client" where
  "settle r = (case r of Inl (e, s) \<Rightarrow> s\<lparr>uncaught := uncaught s @ [e]\<rparr> | Inr s \<Rightarrow> s)"

definition set_readyState :: "nat \<Rightarrow> ready_state \<Rightarrow> client \<Rightarrow> client" where
  "set_readyState i r s = s\<lparr>sockets := (sockets s)[i := (sockets s ! i)\<lparr>readyState := r\<rparr>]\<rparr>"

text \<open>The click listener of a \<open>.room-item\<close>; \<open>closeRoomModal\<close> is skipped when
  \<open>switchRoom\<close> throws.\<close>

definition room_item_click :: "string \<Rightarrow> client \<Rightarrow> result" where
  "room_item_click room s =
     (case (if room \<noteq> currentRoom s then switchRoom room s else Inr s) of
        Inl x \<Rightarrow> Inl x
      | Inr s1 \<Rightarrow> Inr (closeRoomModal s1))"

text \<open>
  The browser dispatches \<open>open\<close> only on a connecting socket, in the task that makes it
  \<open>OPEN\<close>; \<open>message\<close> only on an open socket; \<open>close\<close> once, in the task that makes the
  socket \<open>CLOSED\<close>; and it runs a timeout only while it is pending, removing it first. An
  event that cannot occur in the state leaves it unchanged. The \<open>input\<close> listeners of a field
  run in the order of registration: the two at the end of the script come first.
\<close>

fun step :: "event \<Rightarrow> client \<Rightarrow> client" where
  "step (UsernameInput v) s = s\<lparr>usernameInput := username_filter v\<rparr>"
| "step (RoomSelect v) s = s\<lparr>roomSelect := v\<rparr>"
| "step JoinClick s = settle (handleJoin s)"
| "step (MessageInput v) s = settle (handleTyping (s\<lparr>messageInput := collapse_spaces v\<rparr>))"
| "step (SendClick now) s = settle (sendMessage now s)"
| "step RoomSwitchClick s = openRoomModal s"
| "step CloseModalClick s = closeRoomModal s"
| "step (RoomItemClick room) s = settle (room_item_click room s)"
| "step (LeaveClick confirmed) s = handleLeave confirmed s"
| "step (SocketOpen i) s =
     (if i < length (sockets s) \<and> readyState (sockets s ! i) = CONNECTING
      then settle (onopen (set_readyState i OPEN s)) else s)"
| "step (SocketMessage i frame now) s =
     (if i < length (sockets s) \<and> readyState (sockets s ! i) = OPEN
      then settle (onmessage frame now s) else s)"
| "step (SocketError i) s = (if i < length (sockets s) then onerror s else s)"
| "step (SocketClose i) s =
     (if i < length (sockets s) \<and> readyState (sockets s ! i) \<noteq> CLOSED
      then onclose (set_readyState i CLOSED s) else s)"
| "step (TimerFire t) s =
     (case map_of (timers s) t of
        None \<Rightarrow> s
      | Some (delay, cb) \<Rightarrow> settle (run_callback cb (clearTimeout t s)))"

fun exec :: "event list \<Rightarrow> client \<Rightarrow> client" where
  "exec [] s = s"
| "exec (e # es) s = exec es (step e s)"

text \<open>
  The state when the script has been loaded: the variables as declared at the top of the
  script, no socket and no timer yet.

  Modelled from the spec: \<open>index.html\<close> is not among the sources. The page is taken to
  start on the login screen, with empty inputs, \<open>general\<close> selected and the chat screen,
  typing indicator, connection status and room modal hidden.
\<close>

definition init :: client where
  "init =
     \<lparr>socket = None, currentUsername = [], currentRoom = ''general'', isTyping = False,
      typingTimeout = None, sockets = [], timers = [], nextTimer = 1, uncaught = [],
      alerts = [], usernameInput = [], usernameBorder = [], roomSelect = ''general'',
      messageInput = [], sendBtnDisabled = True, loginScreenHidden = False,
      chatScreenHidden = True, messagesList = [], typingIndicatorHidden = True,
      typingText = [], onlineCount = [], currentRoomEl = [], statusText = [],
      connectionStatusHidden = True, spinnerDisplay = [], roomModalHidden = True\<rparr>"

subsection \<open>Notions used in the properties\<close>

text \<open>How \<open>addChatMessage\<close> renders a message whose username is \<open>currentUsername\<close>.\<close>

definition own_message :: "string \<Rightarrow> string \<Rightarrow> string \<Rightarrow> item" where
  "own_message username message time =
     MessageDiv \<lparr>own = True, avatar = take 1 username, usernameEl = ''You'', timeEl = time,
                 bubble = message\<rparr>"

text \<open>A session that has joined room \<open>general\<close> as \<open>ann\<close> and typed \<open>hi\<close>.\<close>

definition chatting :: client where
  "chatting = exec [UsernameInput ''ann'', JoinClick, SocketOpen 0, MessageInput ''hi''] init"

text \<open>A session that has joined room \<open>general\<close> as \<open>ann\<close>, its socket open.\<close>

definition joined :: client where
  "joined = exec [UsernameInput ''ann'', JoinClick, SocketOpen 0] init"

text \<open>A join envelope is an object with exactly the fields \<open>username\<close> and \<open>room\<close>, in
  that order, and no \<open>type\<close> tag.\<close>

definition is_join :: "envelope \<Rightarrow> bool" where
  "is_join e = (map fst e = [''username'', ''room''])"

definition join_first :: "envelope list \<Rightarrow> bool" where
  "join_first es = (case es of [] \<Rightarrow> True | e # _ \<Rightarrow> is_join e)"

text \<open>The characters the \<open>input\<close> listener of the username field lets through.\<close>

definition name_ok :: "string \<Rightarrow> bool" where
  "name_ok u = (\<forall>c \<in> set u. is_word c \<or> is_space c)"

text \<open>
  Typing notices on one socket, read from the first frame on. \<open>typing_pending t\<close> tells
  whether a typing envelope is outstanding after the frames, \<open>t\<close> telling whether one was
  before them. \<open>no_double_typing t\<close>: no typing envelope is sent while one is outstanding.
  \<open>alternating t\<close>: moreover a stop_typing envelope is sent only while one is outstanding.
\<close>

fun typing_pending :: "bool \<Rightarrow> envelope list \<Rightarrow> bool" where
  "typing_pending t [] = t"
| "typing_pending t (e # es) =
     typing_pending (if e = typing_envelope then True
                     else if e = stop_typing_envelope then False else t) es"

fun no_double_typing :: "bool \<Rightarrow> envelope list \<Rightarrow> bool" where
  "no_double_typing t [] = True"
| "no_double_typing t (e # es) =
     (if e = typing_envelope then \<not> t \<and> no_double_typing True es
      else if e = stop_typing_envelope then no_double_typing False es
      else no_double_typing t es)"

fun alternating :: "bool \<Rightarrow> envelope list \<Rightarrow> bool" where
  "alternating t [] = True"
| "alternating t (e # es) =
     (if e = typing_envelope then \<not> t \<and> alternating True es
      else if e = stop_typing_envelope then t \<and> alternating False es
      else alternating t es)"

subsection \<open>The part of the state the network properties depend on\<close>

record view =
  v_socket :: "nat option"
  v_sockets :: "websocket list"
  v_isTyping :: bool
  v_currentUsername :: string
  v_currentRoom :: string
  v_usernameInput :: string
  v_roomSelect :: string

definition view :: "client \<Rightarrow> view" where
  "view s =
     \<lparr>v_socket = socket s, v_sockets = sockets s, v_isTyping = isTyping s,
      v_currentUsername = currentUsername s, v_currentRoom = currentRoom s,
      v_usernameInput = usernameInput s, v_roomSelect = roomSelect s\<rparr>"

text \<open>What the socket operations do to it: \<open>transmit\<close> is a \<open>send\<close> on the current
  socket, which reaches the wire only if that socket is open; \<open>hang_up\<close> is \<open>close\<close> on
  the current socket; \<open>dial\<close> is \<open>connectWebSocket\<close>; \<open>mark\<close> is the browser changing
  the \<open>readyState\<close> of a socket.\<close>

definition transmit :: "envelope \<Rightarrow> view \<Rightarrow> view" where
  "transmit env v =
     (case v_socket v of
        None \<Rightarrow> v
      | Some g \<Rightarrow>
          if g < length (v_sockets v) \<and> readyState (v_sockets v ! g) = OPEN
          then v\<lparr>v_sockets :=
                   (v_sockets v)[g := (v_sockets v ! g)\<lparr>sent := sent (v_sockets v ! g) @ [env]\<rparr>]\<rparr>
          else v)"

definition hang_up :: "view \<Rightarrow> view" where
  "hang_up v =
     (case v_socket v of
        None \<Rightarrow> v
      | Some g \<Rightarrow>
          if g < length (v_sockets v) \<and> readyState (v_sockets v ! g) \<noteq> CLOSED
          then v\<lparr>v_sockets := (v_sockets v)[g := (v_sockets v ! g)\<lparr>readyState := CLOSING\<rparr>]\<rparr>
          else v)"

definition dial :: "view \<Rightarrow> view" where
  "dial v =
     v\<lparr>v_sockets := v_sockets v @ [\<lparr>readyState = CONNECTING, sent = []\<rparr>],
       v_socket := Some (length (v_sockets v))\<rparr>"

definition mark :: "nat \<Rightarrow> ready_state \<Rightarrow> view \<Rightarrow> view" where
  "mark j r v = v\<lparr>v_sockets := (v_sockets v)[j := (v_sockets v ! j)\<lparr>readyState := r\<rparr>]\<rparr>"

text \<open>The ways an event can change the view; an event can also leave it as it is.\<close>

inductive moves :: "event \<Rightarrow> view \<Rightarrow> view \<Rightarrow> bool" where
  username_edited:
    "moves (UsernameInput x) v (v\<lparr>v_usernameInput := username_filter x\<rparr>)"
| room_selected:
    "moves (RoomSelect x) v (v\<lparr>v_roomSelect := x\<rparr>)"
| joined_room:
    "trim (v_usernameInput v) \<noteq> [] \<Longrightarrow> length (trim (v_usernameInput v)) \<le> 20 \<Longrightarrow>
     roomConfig_name (v_roomSelect v) \<noteq> None \<Longrightarrow>
     moves JoinClick v
       (dial (v\<lparr>v_currentUsername := trim (v_usernameInput v), v_currentRoom := v_roomSelect v\<rparr>))"
| join_threw:
    "trim (v_usernameInput v) \<noteq> [] \<Longrightarrow> length (trim (v_usernameInput v)) \<le> 20 \<Longrightarrow>
     roomConfig_name (v_roomSelect v) = None \<Longrightarrow>
     moves JoinClick v
       (v\<lparr>v_currentUsername := trim (v_usernameInput v), v_currentRoom := v_roomSelect v\<rparr>)"
| typing_started:
    "v_socket v = Some g \<Longrightarrow> g < length (v_sockets v) \<Longrightarrow>
     readyState (v_sockets v ! g) = OPEN \<Longrightarrow> \<not> v_isTyping v \<Longrightarrow>
     moves (MessageInput x) v (transmit typing_envelope (v\<lparr>v_isTyping := True\<rparr>))"
| chat_sent:
    "v_socket v = Some g \<Longrightarrow> g < length (v_sockets v) \<Longrightarrow>
     readyState (v_sockets v ! g) = OPEN \<Longrightarrow>
     moves (SendClick now) v
       (if v_isTyping v
        then transmit stop_typing_envelope ((transmit (chat_envelope m) v)\<lparr>v_isTyping := False\<rparr>)
        else transmit (chat_envelope m) v)"
| room_switched:
    "room \<noteq> v_currentRoom v \<Longrightarrow> roomConfig_name room \<noteq> None \<Longrightarrow>
     moves (RoomItemClick room) v (dial (hang_up (v\<lparr>v_currentRoom := room\<rparr>)))"
| switch_threw:
    "room \<noteq> v_currentRoom v \<Longrightarrow> roomConfig_name room = None \<Longrightarrow>
     moves (RoomItemClick room) v (v\<lparr>v_currentRoom := room\<rparr>)"
| left:
    "moves (LeaveClick True) v ((hang_up v)\<lparr>v_usernameInput := [], v_currentUsername := []\<rparr>)"
| opened:
    "j < length (v_sockets v) \<Longrightarrow> readyState (v_sockets v ! j) = CONNECTING \<Longrightarrow>
     moves (SocketOpen j) v
       (transmit (join_envelope (v_currentUsername v) (v_currentRoom v)) (mark j OPEN v))"
| closed:
    "j < length (v_sockets v) \<Longrightarrow> readyState (v_sockets v ! j) \<noteq> CLOSED \<Longrightarrow>
     moves (SocketClose j) v (mark j CLOSED v)"
| reconnected:
    "moves (TimerFire t) v (dial v)"
| typing_stopped:
    "v_isTyping v \<Longrightarrow>
     moves (TimerFire t) v (transmit stop_typing_envelope (v\<lparr>v_isTyping := False\<rparr>))"

text \<open>
  What holds of the sockets in every state the client reaches: \<open>socket\<close> refers to a socket
  that exists; nothing has been transmitted on a socket that is still connecting; what has
  been transmitted on a socket starts with a join envelope; and the current socket, once
  open, has transmitted something.
\<close>

definition net_inv :: "view \<Rightarrow> bool" where
  "net_inv v =
     ((\<forall>g. v_socket v = Some g \<longrightarrow> g < length (v_sockets v)) \<and>
      (\<forall>i < length (v_sockets v).
         readyState (v_sockets v ! i) = CONNECTING \<longrightarrow> sent (v_sockets v ! i) = []) \<and>
      (\<forall>i < length (v_sockets v). join_first (sent (v_sockets v ! i))) \<and>
      (\<forall>g. v_socket v = Some g \<longrightarrow> readyState (v_sockets v ! g) = OPEN \<longrightarrow>
           sent (v_sockets v ! g) \<noteq> []))"

text \<open>No socket has seen two typing envelopes in a row; while the current socket is
  open and \<open>isTyping\<close> is clear, no typing envelope is outstanding on it; and while
  \<open>isTyping\<close> is set, a typing envelope is outstanding on some socket.\<close>

definition typing_inv :: "view \<Rightarrow> bool" where
  "typing_inv v =
     ((\<forall>i < length (v_sockets v). no_double_typing False (sent (v_sockets v ! i))) \<and>
      (\<forall>g < length (v_sockets v).
         v_socket v = Some g \<longrightarrow> readyState (v_sockets v ! g) = OPEN \<longrightarrow> \<not> v_isTyping v \<longrightarrow>
         \<not> typing_pending False (sent (v_sockets v ! g))) \<and>
      (v_isTyping v \<longrightarrow>
         (\<exists>i < length (v_sockets v). typing_pending False (sent (v_sockets v ! i)))))"

text \<open>The username field, the username variable and every transmitted \<open>username\<close> field
  hold filtered characters only.\<close>

definition name_inv :: "view \<Rightarrow> bool" where
  "name_inv v =
     (name_ok (v_usernameInput v) \<and> name_ok (v_currentUsername v) \<and>
      (\<forall>i < length (v_sockets v). \<forall>e \<in> set (sent (v_sockets v ! i)). \<forall>u.
         map_of e ''username'' = Some u \<longrightarrow> name_ok u))"

text \<open>Timer handles are handed out in increasing order.\<close>

definition timer_inv :: "client \<Rightarrow> bool" where
  "timer_inv s =
     ((\<forall>h \<in> fst ` set (timers s). h < nextTimer s) \<and>
      (\<forall>t. typingTimeout s = Some t \<longrightarrow> t < nextTimer s))"

subsection \<open>The room relay\<close>

text \<open>
  The server (\<open>backend/main.py\<close>) is not among the sources; the client above is. What
  follows is the Connection Registry, the Room Broadcaster and the chat branch of the
  Session Dispatcher as the specification describes them.
\<close>

text \<open>Modelled from the spec: the Connection of the data model (the server's
  \<open>main.py\<close> is missing): socket handle, username, room and time of joining.\<close>

record connection =
  c_socket :: nat
  c_username :: string
  c_room :: string
  c_joinedAt :: nat

text \<open>Modelled from the spec: the join-time errors of the error taxonomy (the server's
  \<open>main.py\<close> is missing).\<close>

datatype admit_error = InvalidUsername | UnknownRoom

text \<open>Modelled from the spec: the fixed set of rooms known at startup (the server's
  \<open>main.py\<close> is missing): general, tech, fun and random.\<close>

definition rooms :: "string list" where
  "rooms = [''general'', ''tech'', ''fun'', ''random'']"

text \<open>
  Modelled from the spec: the Registry and the transport under it (the server's
  \<open>main.py\<close> is missing). \<open>connections\<close> maps a connection id to its Connection and
  \<open>members\<close> a room name to its member set; \<open>nextId\<close> is the next id to assign.
  \<open>delivered\<close> holds, per connection, the envelopes written to its socket so far,
  \<open>broken\<close> the connections whose socket fails every write, and \<open>doomed\<close> the
  connections whose removal a failed write has requested.
\<close>

record relay =
  connections :: "nat \<rightharpoonup> connection"
  members :: "string \<Rightarrow> nat set"
  nextId :: nat
  delivered :: "nat \<Rightarrow> data list"
  broken :: "nat set"
  doomed :: "nat set"

text \<open>Modelled from the spec: a username is 1 to 20 characters, alphanumeric, underscore
  or space only (the server's \<open>main.py\<close> is missing).\<close>

definition valid_username :: "string \<Rightarrow> bool" where
  "valid_username u =
     (u \<noteq> [] \<and> length u \<le> 20 \<and> (\<forall>c \<in> set u. is_word c \<or> c = CHR 0x20))"

text \<open>Modelled from the spec: \<open>admit(socket, username, room)\<close> of the missing
  \<open>main.py\<close>: it fails with \<open>InvalidUsername\<close> or \<open>UnknownRoom\<close>, or creates the
  Connection, inserts it into the member set of its room and returns its id.\<close>

definition admit :: "nat \<Rightarrow> string \<Rightarrow> string \<Rightarrow> nat \<Rightarrow> relay \<Rightarrow> admit_error + nat \<times> relay" where
  "admit sock username room now st =
     (if \<not> valid_username username then Inl InvalidUsername
      else if room \<notin> set rooms then Inl UnknownRoom
      else Inr (nextId st,
                st\<lparr>connections := (connections st)(nextId st \<mapsto>
                         \<lparr>c_socket = sock, c_username = username, c_room = room, c_joinedAt = now\<rparr>),
                   members := (members st)(room := insert (nextId st) (members st room)),
                   nextId := Suc (nextId st)\<rparr>))"

text \<open>Modelled from the spec: \<open>remove(id)\<close> of the missing \<open>main.py\<close>: idempotent; it
  takes the connection out of the member set of its room and drops its record.\<close>

definition remove :: "nat \<Rightarrow> relay \<Rightarrow> relay" where
  "remove i st =
     (case connections st i of
        None \<Rightarrow> st
      | Some c \<Rightarrow>
          st\<lparr>connections := (connections st)(i := None),
             members := (members st)(c_room c := members st (c_room c) - {i})\<rparr>)"

text \<open>Modelled from the spec: \<open>membersOf(room)\<close> of the missing \<open>main.py\<close>.\<close>

definition membersOf :: "string \<Rightarrow> relay \<Rightarrow> nat set" where
  "membersOf room st = members st room"

text \<open>Modelled from the spec: \<open>broadcast(room, envelope, excludeId)\<close> of the missing
  \<open>main.py\<close>: the envelope is written to every connection in the room except
  \<open>excludeId\<close>, each write on its own; a failed write reaches nobody else's delivery and
  requests the removal of that member.\<close>

definition broadcast :: "string \<Rightarrow> data \<Rightarrow> nat option \<Rightarrow> relay \<Rightarrow> relay" where
  "broadcast room envelope excludeId st =
     st\<lparr>delivered := (\<lambda>i. if i \<in> membersOf room st \<and> excludeId \<noteq> Some i \<and> i \<notin> broken st
                          then delivered st i @ [envelope] else delivered st i),
        doomed := doomed st \<union> {i \<in> membersOf room st. excludeId \<noteq> Some i \<and> i \<in> broken st}\<rparr>"

text \<open>Modelled from the spec: the \<open>chat\<close> branch of the Session Dispatcher of the missing
  \<open>main.py\<close>, for an active connection: a chat envelope with the sender's username, the
  message and the timestamp is broadcast to the sender's room, the sender included. A
  connection that is not in the registry is not active, and its frame is ignored.\<close>

definition on_chat :: "nat \<Rightarrow> string \<Rightarrow> string \<Rightarrow> relay \<Rightarrow> relay" where
  "on_chat i message timestamp st =
     (case connections st i of
        None \<Rightarrow> st
      | Some c \<Rightarrow> broadcast (c_room c) (Chat (c_username c) message (Some timestamp)) None st)"

text \<open>Modelled from the spec: what happens to the relay (the server's \<open>main.py\<close> is
  missing): a join envelope is admitted or refused, a connection is removed, a chat
  envelope arrives on a connection, or a socket breaks.\<close>

datatype relay_event =
    Admit nat string string nat
  | Remove nat
  | ChatFrom nat string string
  | Break nat

text \<open>Modelled from the spec: the effect of one such event (the server's \<open>main.py\<close>
  is missing); a refused join leaves the registry as it is.\<close>

fun relay_step :: "relay_event \<Rightarrow> relay \<Rightarrow> relay" where
  "relay_step (Admit sock username room now) st =
     (case admit sock username room now st of Inl _ \<Rightarrow> st | Inr (_, st') \<Rightarrow> st')"
| "relay_step (Remove i) st = remove i st"
| "relay_step (ChatFrom i message timestamp) st = on_chat i message timestamp st"
| "relay_step (Break i) st = st\<lparr>broken := insert i (broken st)\<rparr>"

text \<open>Modelled from the spec: the events of the relay in the order they are handled
  (the server's \<open>main.py\<close> is missing).\<close>

fun relay_run :: "relay_event list \<Rightarrow> relay \<Rightarrow> relay" where
  "relay_run [] st = st"
| "relay_run (e # es) st = relay_run es (relay_step e st)"

text \<open>Modelled from the spec: the registry at startup (the server's \<open>main.py\<close> is
  missing): no connection, every room empty.\<close>

definition startup :: relay where
  "startup =
     \<lparr>connections = Map.empty, members = (\<lambda>_. {}), nextId = 0, delivered = (\<lambda>_. []),
      broken = {}, doomed = {}\<rparr>"

text \<open>The invariant of the data model: a connection id is in the member set of a room
  exactly when its record names that room, and the ids in use have been assigned.\<close>

definition relay_inv :: "relay \<Rightarrow> bool" where
  "relay_inv st =
     ((\<forall>i room. i \<in> members st room \<longleftrightarrow> (\<exists>c. connections st i = Some c \<and> c_room c = room)) \<and>
      (\<forall>i c. connections st i = Some c \<longrightarrow> i < nextId st))"

text \<open>Three connections, two in room \<open>tech\<close> and one in room \<open>fun\<close>.\<close>

definition three_joined :: relay where
  "three_joined =
     relay_run [Admit 10 ''Ada'' ''tech'' 0, Admit 11 ''Bob'' ''fun'' 1, Admit 12 ''Cy'' ''tech'' 2]
       startup"

text \<open>
  A session that switches rooms twice, with a server that answers at once: join
  \<open>general\<close> as \<open>ann\<close>; switch to \<open>tech\<close>, the new socket opens, the close event of the
  old socket arrives and its reconnect timeout fires, the reconnected socket opens; switch
  to \<open>fun\<close>, and the new socket opens.
\<close>

definition two_switches :: "event list" where
  "two_switches =
     [UsernameInput ''ann'', JoinClick, SocketOpen 0,
      RoomSwitchClick, RoomItemClick ''tech'', SocketOpen 1, SocketClose 0, TimerFire 3, SocketOpen 2,
      RoomSwitchClick, RoomItemClick ''fun'', SocketOpen 3]"

text \<open>
  A session that switches rooms once, with a server that is slow to accept: join
  \<open>general\<close> as \<open>ann\<close>; switch to \<open>tech\<close>; the close event of the old socket arrives and
  its reconnect timeout fires before the socket of the switch has opened; then that socket
  opens, and then the reconnected one.
\<close>

definition slow_switch :: "event list" where
  "slow_switch =
     [UsernameInput ''ann'', JoinClick, SocketOpen 0,
      RoomSwitchClick, RoomItemClick ''tech'', SocketClose 0, TimerFire 2, SocketOpen 1, SocketOpen 2]"

section \<open>Properties\<close>

subsection \<open>Timestamps and the typing indicator\<close>

lemma digit_0: "digit 0 = CHR ''0''"
  by (simp add: digit_def)

lemma String_below_10: "n < 10 \<Longrightarrow> String n = [digit n]"
  by simp

lemma String_below_100: "10 \<le> n \<Longrightarrow> n < 100 \<Longrightarrow> String n = [digit (n div 10), digit (n mod 10)]"
  by (subst String.simps) (simp add: String_below_10 less_mult_imp_div_less)

lemma two_digits: "n < 100 \<Longrightarrow> padStart 2 (CHR ''0'') (String n) = [digit (n div 10), digit (n mod 10)]"
proof (cases "n < 10")
  case True
  then show ?thesis
    by (simp add: padStart_def String_below_10 digit_0 del: String.simps)
next
  case False
  assume "n < 100"
  with False show ?thesis
    by (simp add: padStart_def String_below_100 del: String.simps)
qed

lemma getHours_range: "getHours now < 24"
  by (simp add: getHours_def nat_less_iff)

lemma getMinutes_range: "getMinutes now < 60"
  by (simp add: getMinutes_def nat_less_iff)

text \<open>
  Claim C8. For every wall-clock time, \<open>getCurrentTime\<close> returns five characters: the two
  decimal digits of the hour, which is below 24, a colon, and the two decimal digits of the
  minute, which is below 60; a one-digit hour or minute gets a leading zero.
\<close>

theorem getCurrentTime_format:
  "getHours now < 24 \<and> getMinutes now < 60 \<and> length (getCurrentTime now) = 5 \<and>
   getCurrentTime now =
     [digit (getHours now div 10), digit (getHours now mod 10), CHR '':'',
      digit (getMinutes now div 10), digit (getMinutes now mod 10)]"
proof -
  have h: "getHours now < 100" and m: "getMinutes now < 100"
    using getHours_range [of now] getMinutes_range [of now] by simp_all
  have "getCurrentTime now =
     [digit (getHours now div 10), digit (getHours now mod 10), CHR '':'',
      digit (getMinutes now div 10), digit (getMinutes now mod 10)]"
    by (simp add: getCurrentTime_def two_digits [OF h] two_digits [OF m] del: String.simps)
  then show ?thesis
    by (simp add: getHours_range getMinutes_range)
qed

text \<open>
  Claim C7. \<open>updateTypingIndicator\<close> hides the indicator for an absent or empty list;
  for one user it shows "u0 is typing...", for two "u0 and u1 are typing...", and for
  n users, n at least 3, "u0, u1 and n-2 others are typing...", where u0 and u1 are the
  first two names of the list as received.
\<close>

theorem updateTypingIndicator_text:
  "updateTypingIndicator None s = s\<lparr>typingIndicatorHidden := True\<rparr> \<and>
   updateTypingIndicator (Some []) s = s\<lparr>typingIndicatorHidden := True\<rparr> \<and>
   (length us1 = 1 \<longrightarrow>
      updateTypingIndicator (Some us1) s =
        s\<lparr>typingIndicatorHidden := False, typingText := us1 ! 0 @ '' is typing...''\<rparr>) \<and>
   (length us2 = 2 \<longrightarrow>
      updateTypingIndicator (Some us2) s =
        s\<lparr>typingIndicatorHidden := False,
          typingText := us2 ! 0 @ '' and '' @ us2 ! 1 @ '' are typing...''\<rparr>) \<and>
   (3 \<le> length us3 \<longrightarrow>
      updateTypingIndicator (Some us3) s =
        s\<lparr>typingIndicatorHidden := False,
          typingText := us3 ! 0 @ '', '' @ us3 ! 1 @ '' and '' @ String (length us3 - 2)
                        @ '' others are typing...''\<rparr>)"
proof -
  have one: "length us1 = 1 \<longrightarrow>
      updateTypingIndicator (Some us1) s =
        s\<lparr>typingIndicatorHidden := False, typingText := us1 ! 0 @ '' is typing...''\<rparr>"
    by (cases us1) (auto simp del: String.simps)
  have two: "length us2 = 2 \<longrightarrow>
      updateTypingIndicator (Some us2) s =
        s\<lparr>typingIndicatorHidden := False,
          typingText := us2 ! 0 @ '' and '' @ us2 ! 1 @ '' are typing...''\<rparr>"
  proof (cases us2)
    case Nil
    then show ?thesis by simp
  next
    case (Cons a as)
    then show ?thesis by (cases as) (auto simp del: String.simps)
  qed
  have many: "3 \<le> length us3 \<longrightarrow>
      updateTypingIndicator (Some us3) s =
        s\<lparr>typingIndicatorHidden := False,
          typingText := us3 ! 0 @ '', '' @ us3 ! 1 @ '' and '' @ String (length us3 - 2)
                        @ '' others are typing...''\<rparr>"
  proof (cases us3)
    case Nil
    then show ?thesis by simp
  next
    case a: (Cons a as)
    show ?thesis
    proof (cases as)
      case Nil
      with a show ?thesis by simp
    next
      case b: (Cons b bs)
      with a show ?thesis by (cases bs) (auto simp del: String.simps)
    qed
  qed
  from one two many show ?thesis by simp
qed

theorem updateTypingIndicator_text_witness:
  "length [''Ada''] = 1 \<and> length [''Ada'', ''Bob''] = 2 \<and> 3 \<le> length [''Ada'', ''Bob'', ''Cy'', ''Di''] \<and>
   typingIndicatorHidden (updateTypingIndicator (Some []) init) \<and>
   typingText (updateTypingIndicator (Some [''Ada'']) init) = ''Ada is typing...'' \<and>
   typingText (updateTypingIndicator (Some [''Ada'', ''Bob'']) init) = ''Ada and Bob are typing...'' \<and>
   typingText (updateTypingIndicator (Some [''Ada'', ''Bob'', ''Cy'', ''Di'']) init)
     = ''Ada, Bob and 2 others are typing...''"
  using updateTypingIndicator_text [of init "[''Ada'']" "[''Ada'', ''Bob'']" "[''Ada'', ''Bob'', ''Cy'', ''Di'']"]
  by (simp add: digit_def)

subsection \<open>Sending on the current socket\<close>

lemma socket_open_cases:
  "socket_open s \<Longrightarrow>
   \<exists>i. socket s = Some i \<and> i < length (sockets s) \<and> readyState (sockets s ! i) = OPEN"
  by (auto simp: socket_open_def split: option.splits)

lemma socket_send_open:
  "socket s = Some i \<Longrightarrow> socket_open s \<Longrightarrow>
   socket_send env s =
     Inr (s\<lparr>sockets := (sockets s)[i := (sockets s ! i)\<lparr>sent := sent (sockets s ! i) @ [env]\<rparr>]\<rparr>)"
  by (simp add: socket_send_def socket_open_def)

subsection \<open>The local echo of a chat message\<close>

lemma messagesList_sendMessage:
  assumes "trim (messageInput s) \<noteq> []" and "socket_open s"
  shows "\<exists>s1. sendMessage now s = Inr s1 \<and> currentUsername s1 = currentUsername s \<and>
           messagesList s1 = messagesList s @
             [own_message (currentUsername s) (trim (messageInput s)) (getCurrentTime now)]"
proof -
  from assms(2) obtain i where i: "socket s = Some i" "i < length (sockets s)"
      "readyState (sockets s ! i) = OPEN"
    using socket_open_cases by blast
  show ?thesis
    using assms i
    by (auto simp: sendMessage_def socket_send_def socket_open_def addChatMessage_def Let_def
         own_message_def clearTimeout_def split: option.splits)
qed

lemma messagesList_handleMessage_Chat:
  "messagesList (handleMessage (Chat (currentUsername s) message ts) now s) =
     messagesList s @
       [own_message (currentUsername s) message
          (case ts of None \<Rightarrow> getCurrentTime now | Some t \<Rightarrow> if t = [] then getCurrentTime now else t)]"
  by (simp add: addChatMessage_def own_message_def Let_def)

text \<open>
  Claim C10. A successful \<open>sendMessage\<close> (non-empty trimmed message, open socket) appends
  the sender's own message to the local message list at once, with the local time; when
  the server's chat broadcast of that message, which names the sender, is then handled,
  \<open>handleMessage\<close> appends the same message a second time (with the server's timestamp,
  or the local time when the broadcast carries none).
\<close>

theorem sendMessage_renders_twice:
  assumes "trim (messageInput s) \<noteq> []" and "socket_open s"
  shows "\<exists>s1. sendMessage now s = Inr s1 \<and>
           messagesList s1 = messagesList s @
             [own_message (currentUsername s) (trim (messageInput s)) (getCurrentTime now)] \<and>
           messagesList (handleMessage (Chat (currentUsername s) (trim (messageInput s)) ts) now' s1) =
             messagesList s @
               [own_message (currentUsername s) (trim (messageInput s)) (getCurrentTime now),
                own_message (currentUsername s) (trim (messageInput s))
                  (case ts of None \<Rightarrow> getCurrentTime now'
                   | Some t \<Rightarrow> if t = [] then getCurrentTime now' else t)]"
proof -
  from messagesList_sendMessage [OF assms, of now] obtain s1 where
    s1: "sendMessage now s = Inr s1" "currentUsername s1 = currentUsername s"
      "messagesList s1 = messagesList s @
         [own_message (currentUsername s) (trim (messageInput s)) (getCurrentTime now)]"
    by blast
  from messagesList_handleMessage_Chat [of s1 "trim (messageInput s)" ts now'] s1(2,3)
  have "messagesList (handleMessage (Chat (currentUsername s) (trim (messageInput s)) ts) now' s1) =
     messagesList s @
       [own_message (currentUsername s) (trim (messageInput s)) (getCurrentTime now),
        own_message (currentUsername s) (trim (messageInput s))
          (case ts of None \<Rightarrow> getCurrentTime now'
           | Some t \<Rightarrow> if t = [] then getCurrentTime now' else t)]"
    by simp
  with s1 show ?thesis by blast
qed

theorem sendMessage_renders_twice_witness:
  "trim (messageInput chatting) \<noteq> [] \<and> socket_open chatting \<and>
   messagesList (handleMessage (Chat ''ann'' ''hi'' (Some ''10:11'')) 0 (settle (sendMessage 0 chatting))) =
     [own_message ''ann'' ''hi'' ''00:00'', own_message ''ann'' ''hi'' ''10:11'']"
proof -
  have m: "trim (messageInput chatting) = ''hi''" by code_simp
  have a: "trim (messageInput chatting) \<noteq> []" by (simp add: m)
  have b: "socket_open chatting" by code_simp
  have u: "currentUsername chatting = ''ann''" by code_simp
  have l: "messagesList chatting = []" by code_simp
  have t: "getCurrentTime 0 = ''00:00''" by code_simp
  from sendMessage_renders_twice [OF a b, of 0 "Some ''10:11''" 0]
  show ?thesis
    by (auto simp: a b m u l t settle_def)
qed

subsection \<open>Reconnecting\<close>

lemma step_SocketClose:
  assumes "i < length (sockets s)" and "readyState (sockets s ! i) \<noteq> CLOSED"
  shows "timers (step (SocketClose i) s) = timers s @ [(nextTimer s, 2000, Reconnect)]"
    and "sockets (step (SocketClose i) s) = (sockets s)[i := (sockets s ! i)\<lparr>readyState := CLOSED\<rparr>]"
    and "socket (step (SocketClose i) s) = socket s"
  using assms
  by (simp_all add: onclose_def setTimeout_def showConnectionStatus_def set_readyState_def)

lemma fire_Reconnect_visible:
  assumes "map_of (timers s) t = Some (delay, Reconnect)" and "\<not> chatScreenHidden s"
  shows "step (TimerFire t) s = connectWebSocket (clearTimeout t s)"
  using assms by (simp add: settle_def clearTimeout_def)

lemma fire_Reconnect_hidden:
  assumes "map_of (timers s) t = Some (delay, Reconnect)" and "chatScreenHidden s"
  shows "step (TimerFire t) s = clearTimeout t s"
  using assms by (simp add: settle_def clearTimeout_def)

lemma connectWebSocket_sockets:
  "sockets (connectWebSocket s) = sockets s @ [\<lparr>readyState = CONNECTING, sent = []\<rparr>]"
  "socket (connectWebSocket s) = Some (length (sockets s))"
  "currentUsername (connectWebSocket s) = currentUsername s"
  "currentRoom (connectWebSocket s) = currentRoom s"
  by (simp_all add: connectWebSocket_def showConnectionStatus_def Let_def)

text \<open>The current socket, still connecting and with nothing sent, opens: the join envelope
  is the one frame on it.\<close>

lemma open_current_socket:
  assumes "socket s = Some i" and "i < length (sockets s)"
    and "sockets s ! i = \<lparr>readyState = CONNECTING, sent = []\<rparr>"
  shows "sent (sockets (step (SocketOpen i) s) ! i) =
           [join_envelope (currentUsername s) (currentRoom s)]"
  using assms
  by (simp add: onopen_def socket_send_def set_readyState_def settle_def setTimeout_def
        showConnectionStatus_def)

lemma open_after_connectWebSocket:
  "sent (sockets (step (SocketOpen (length (sockets s))) (connectWebSocket s)) ! length (sockets s)) =
     [join_envelope (currentUsername s) (currentRoom s)]"
  using open_current_socket [of "connectWebSocket s" "length (sockets s)"]
  by (simp add: connectWebSocket_sockets)


text \<open>
  Claim C4, as amended. Every socket close event schedules a reconnect timeout with the
  fixed delay of 2000 ms, whatever happened before (there is no retry limit), and opens no
  connection itself. The chat screen is tested when that timeout fires, not at the close
  event: if the chat screen is not hidden then, \<open>connectWebSocket\<close> runs again, and the new
  socket, opening as the current one, sends the join envelope; if the chat screen is hidden
  then, no connection is made.
\<close>

theorem reconnect_policy:
  "(i < length (sockets s) \<and> readyState (sockets s ! i) \<noteq> CLOSED \<longrightarrow>
      timers (step (SocketClose i) s) = timers s @ [(nextTimer s, 2000, Reconnect)] \<and>
      length (sockets (step (SocketClose i) s)) = length (sockets s) \<and>
      socket (step (SocketClose i) s) = socket s) \<and>
   (map_of (timers s2) t2 = Some (2000, Reconnect) \<and> \<not> chatScreenHidden s2 \<longrightarrow>
      step (TimerFire t2) s2 = connectWebSocket (clearTimeout t2 s2) \<and>
      sockets (step (TimerFire t2) s2) = sockets s2 @ [\<lparr>readyState = CONNECTING, sent = []\<rparr>] \<and>
      socket (step (TimerFire t2) s2) = Some (length (sockets s2)) \<and>
      sent (sockets (step (SocketOpen (length (sockets s2))) (step (TimerFire t2) s2))
              ! length (sockets s2)) =
        [join_envelope (currentUsername s2) (currentRoom s2)]) \<and>
   (map_of (timers s3) t3 = Some (2000, Reconnect) \<and> chatScreenHidden s3 \<longrightarrow>
      sockets (step (TimerFire t3) s3) = sockets s3 \<and>
      socket (step (TimerFire t3) s3) = socket s3)"
proof -
  have closing: "i < length (sockets s) \<and> readyState (sockets s ! i) \<noteq> CLOSED \<longrightarrow>
      timers (step (SocketClose i) s) = timers s @ [(nextTimer s, 2000, Reconnect)] \<and>
      length (sockets (step (SocketClose i) s)) = length (sockets s) \<and>
      socket (step (SocketClose i) s) = socket s"
    using step_SocketClose [of i s] by simp
  have visible: "map_of (timers s2) t2 = Some (2000, Reconnect) \<and> \<not> chatScreenHidden s2 \<longrightarrow>
      step (TimerFire t2) s2 = connectWebSocket (clearTimeout t2 s2) \<and>
      sockets (step (TimerFire t2) s2) = sockets s2 @ [\<lparr>readyState = CONNECTING, sent = []\<rparr>] \<and>
      socket (step (TimerFire t2) s2) = Some (length (sockets s2)) \<and>
      sent (sockets (step (SocketOpen (length (sockets s2))) (step (TimerFire t2) s2))
              ! length (sockets s2)) =
        [join_envelope (currentUsername s2) (currentRoom s2)]"
  proof
    assume a: "map_of (timers s2) t2 = Some (2000, Reconnect) \<and> \<not> chatScreenHidden s2"
    then have fire: "step (TimerFire t2) s2 = connectWebSocket (clearTimeout t2 s2)"
      using fire_Reconnect_visible [of s2 t2 2000] by simp
    have same: "sockets (clearTimeout t2 s2) = sockets s2"
      "currentUsername (clearTimeout t2 s2) = currentUsername s2"
      "currentRoom (clearTimeout t2 s2) = currentRoom s2"
      by (simp_all add: clearTimeout_def)
    show "step (TimerFire t2) s2 = connectWebSocket (clearTimeout t2 s2) \<and>
      sockets (step (TimerFire t2) s2) = sockets s2 @ [\<lparr>readyState = CONNECTING, sent = []\<rparr>] \<and>
      socket (step (TimerFire t2) s2) = Some (length (sockets s2)) \<and>
      sent (sockets (step (SocketOpen (length (sockets s2))) (step (TimerFire t2) s2))
              ! length (sockets s2)) =
        [join_envelope (currentUsername s2) (currentRoom s2)]"
      using open_after_connectWebSocket [of "clearTimeout t2 s2"]
      by (simp only: fire connectWebSocket_sockets same simp_thms)
  qed
  have hidden: "map_of (timers s3) t3 = Some (2000, Reconnect) \<and> chatScreenHidden s3 \<longrightarrow>
      sockets (step (TimerFire t3) s3) = sockets s3 \<and>
      socket (step (TimerFire t3) s3) = socket s3"
    using fire_Reconnect_hidden [of s3 t3 2000] by (auto simp: clearTimeout_def)
  from closing visible hidden show ?thesis by blast
qed

theorem reconnect_policy_witness:
  "0 < length (sockets joined) \<and> readyState (sockets joined ! 0) \<noteq> CLOSED \<and>
   map_of (timers (step (SocketClose 0) joined)) 2 = Some (2000, Reconnect) \<and>
   \<not> chatScreenHidden (step (SocketClose 0) joined) \<and>
   map_of (timers (exec [LeaveClick True, SocketClose 0] joined)) 2 = Some (2000, Reconnect) \<and>
   chatScreenHidden (exec [LeaveClick True, SocketClose 0] joined) \<and>
   timers (step (SocketClose 0) joined) = [(1, 2000, HideStatus), (2, 2000, Reconnect)] \<and>
   length (sockets (step (TimerFire 2) (step (SocketClose 0) joined))) = 2 \<and>
   sent (sockets (step (SocketOpen 1) (step (TimerFire 2) (step (SocketClose 0) joined))) ! 1) =
     [join_envelope ''ann'' ''general''] \<and>
   length (sockets (step (TimerFire 2) (exec [LeaveClick True, SocketClose 0] joined))) = 1"
proof -
  have h1: "0 < length (sockets joined) \<and> readyState (sockets joined ! 0) \<noteq> CLOSED"
    by code_simp
  have h2: "map_of (timers (step (SocketClose 0) joined)) 2 = Some (2000, Reconnect) \<and>
      \<not> chatScreenHidden (step (SocketClose 0) joined)"
    by code_simp
  have h3: "map_of (timers (exec [LeaveClick True, SocketClose 0] joined)) 2 = Some (2000, Reconnect) \<and>
      chatScreenHidden (exec [LeaveClick True, SocketClose 0] joined)"
    by code_simp
  have v: "timers joined = [(1, 2000, HideStatus)]" "nextTimer joined = 2"
    "length (sockets joined) = 1" "currentUsername (step (SocketClose 0) joined) = ''ann''"
    "currentRoom (step (SocketClose 0) joined) = ''general''"
    "length (sockets (exec [LeaveClick True, SocketClose 0] joined)) = 1"
    by code_simp+
  from reconnect_policy [of 0 joined "step (SocketClose 0) joined" 2
      "exec [LeaveClick True, SocketClose 0] joined" 2] h1 h2 h3
  have "timers (step (SocketClose 0) joined) = timers joined @ [(nextTimer joined, 2000, Reconnect)]"
    and "length (sockets (step (SocketClose 0) joined)) = length (sockets joined)"
    and "sockets (step (TimerFire 2) (step (SocketClose 0) joined)) =
           sockets (step (SocketClose 0) joined) @ [\<lparr>readyState = CONNECTING, sent = []\<rparr>]"
    and "sent (sockets (step (SocketOpen (length (sockets (step (SocketClose 0) joined))))
                 (step (TimerFire 2) (step (SocketClose 0) joined)))
              ! length (sockets (step (SocketClose 0) joined))) =
           [join_envelope (currentUsername (step (SocketClose 0) joined))
              (currentRoom (step (SocketClose 0) joined))]"
    and "sockets (step (TimerFire 2) (exec [LeaveClick True, SocketClose 0] joined)) =
           sockets (exec [LeaveClick True, SocketClose 0] joined)"
    by blast+
  with h1 h2 h3 show ?thesis
    by (simp add: v del: step.simps exec.simps)
qed

text \<open>
  The claim as stated fails in both directions. A socket closes while the chat screen
  is hidden (the user has left), the user joins again before the timeout fires, and the
  timeout of that close event opens a further connection. A socket closes while the chat
  screen is shown, the user leaves before the timeout fires, and no connection is made.
\<close>

theorem reconnect_tested_at_close_counterexample:
  "chatScreenHidden (exec [LeaveClick True] joined) \<and>
   map_of (timers (exec [LeaveClick True] joined)) 2 = None \<and>
   chatScreenHidden (exec [LeaveClick True, SocketClose 0] joined) \<and>
   map_of (timers (exec [LeaveClick True, SocketClose 0] joined)) 2 = Some (2000, Reconnect) \<and>
   length (sockets (exec [LeaveClick True, SocketClose 0, UsernameInput ''ann'', JoinClick] joined)) = 2 \<and>
   length (sockets (exec [LeaveClick True, SocketClose 0, UsernameInput ''ann'', JoinClick,
                          TimerFire 2] joined)) = 3 \<and>
   \<not> chatScreenHidden joined \<and>
   \<not> chatScreenHidden (exec [SocketClose 0] joined) \<and>
   map_of (timers (exec [SocketClose 0] joined)) 2 = Some (2000, Reconnect) \<and>
   sockets (exec [SocketClose 0, LeaveClick True, TimerFire 2] joined) =
     [\<lparr>readyState = CLOSED, sent = [join_envelope ''ann'' ''general'']\<rparr>]"
  by code_simp

subsection \<open>Every event moves the view as described\<close>

lemma view_irrelevant [simp]:
  "view (typingTimeout_update f1 s) = view s"
  "view (timers_update f2 s) = view s"
  "view (nextTimer_update f3 s) = view s"
  "view (uncaught_update f4 s) = view s"
  "view (alerts_update f5 s) = view s"
  "view (usernameBorder_update f6 s) = view s"
  "view (messageInput_update f7 s) = view s"
  "view (sendBtnDisabled_update f8 s) = view s"
  "view (loginScreenHidden_update f9 s) = view s"
  "view (chatScreenHidden_update f10 s) = view s"
  "view (messagesList_update f11 s) = view s"
  "view (typingIndicatorHidden_update f12 s) = view s"
  "view (typingText_update f13 s) = view s"
  "view (onlineCount_update f14 s) = view s"
  "view (currentRoomEl_update f15 s) = view s"
  "view (statusText_update f16 s) = view s"
  "view (connectionStatusHidden_update f17 s) = view s"
  "view (spinnerDisplay_update f18 s) = view s"
  "view (roomModalHidden_update f19 s) = view s"
  by (simp_all add: view_def)

lemma view_relevant [simp]:
  "view (socket_update g1 s) = v_socket_update g1 (view s)"
  "view (sockets_update g2 s) = v_sockets_update g2 (view s)"
  "view (isTyping_update g3 s) = v_isTyping_update g3 (view s)"
  "view (currentUsername_update g4 s) = v_currentUsername_update g4 (view s)"
  "view (currentRoom_update g5 s) = v_currentRoom_update g5 (view s)"
  "view (usernameInput_update g6 s) = v_usernameInput_update g6 (view s)"
  "view (roomSelect_update g7 s) = v_roomSelect_update g7 (view s)"
  by (simp_all add: view_def)

lemma view_fields [simp]:
  "v_socket (view s) = socket s"
  "v_sockets (view s) = sockets s"
  "v_isTyping (view s) = isTyping s"
  "v_currentUsername (view s) = currentUsername s"
  "v_currentRoom (view s) = currentRoom s"
  "v_usernameInput (view s) = usernameInput s"
  "v_roomSelect (view s) = roomSelect s"
  by (simp_all add: view_def)

lemma view_showConnectionStatus [simp]: "view (showConnectionStatus m b s) = view s"
  by (simp add: showConnectionStatus_def)

lemma view_setTimeout [simp]: "view (snd (setTimeout cb d s)) = view s"
  by (simp add: setTimeout_def)

lemma view_clearTimeout [simp]: "view (clearTimeout t s) = view s"
  by (simp add: clearTimeout_def)

lemma view_updateTypingIndicator [simp]: "view (updateTypingIndicator us s) = view s"
  by (cases "(us, s)" rule: updateTypingIndicator.cases) (simp_all del: String.simps)

lemma view_handleMessage [simp]: "view (handleMessage d now s) = view s"
  by (cases d)
     (simp_all add: addChatMessage_def addSystemMessage_def updateOnlineCount_def Let_def
           del: String.simps)

lemma view_addChatMessage [simp]: "view (addChatMessage u m ts now s) = view s"
  by (simp add: addChatMessage_def Let_def)

lemma view_connectWebSocket: "view (connectWebSocket s) = dial (view s)"
  by (simp add: connectWebSocket_def dial_def Let_def showConnectionStatus_def)

lemma view_socket_close: "view (socket_close s) = hang_up (view s)"
  by (auto simp: socket_close_def hang_up_def split: option.splits ready_state.splits)

lemma view_set_readyState: "view (set_readyState j r s) = mark j r (view s)"
  by (simp add: set_readyState_def mark_def)

lemma socket_send_Inr:
  "socket_send env s = Inr s' \<Longrightarrow> s' = s\<lparr>sockets := v_sockets (transmit env (view s))\<rparr>"
  by (auto simp: socket_send_def transmit_def split: option.splits if_splits ready_state.splits)

lemma socket_send_Inl:
  "socket_send env s = Inl (e, s') \<Longrightarrow> s' = s \<and> transmit env (view s) = view s"
  by (auto simp: socket_send_def transmit_def split: option.splits if_splits ready_state.splits)

lemma view_sockets_transmit [simp]:
  "v_sockets_update (\<lambda>_. v_sockets (transmit env v)) v = transmit env v"
  by (simp add: transmit_def split: option.splits)

lemma view_socket_send_Inr: "socket_send env s = Inr s' \<Longrightarrow> view s' = transmit env (view s)"
  by (drule socket_send_Inr) simp

lemma view_settle_Inl [simp]: "view (settle (Inl (e, s))) = view s"
  by (simp add: settle_def)

lemma settle_Inr [simp]: "settle (Inr s) = s"
  by (simp add: settle_def)


lemma view_JoinClick:
  "view (step JoinClick s) = view s \<or> moves JoinClick (view s) (view (step JoinClick s))"
proof (cases "trim (usernameInput s) = [] \<or> 20 < length (trim (usernameInput s))")
  case True
  then show ?thesis
    by (auto simp: handleJoin_def Let_def settle_def)
next
  case False
  let ?v = "(view s)\<lparr>v_currentUsername := trim (usernameInput s), v_currentRoom := roomSelect s\<rparr>"
  show ?thesis
  proof (cases "roomConfig_name (roomSelect s)")
    case None
    with False have "view (step JoinClick s) = ?v"
      by (simp add: handleJoin_def Let_def updateRoomUI_def)
    moreover from False None have "moves JoinClick (view s) ?v"
      using join_threw [of "view s"] by simp
    ultimately show ?thesis by simp
  next
    case (Some name)
    with False have "view (step JoinClick s) = dial ?v"
      by (simp add: handleJoin_def Let_def updateRoomUI_def view_connectWebSocket)
    moreover from False Some have "moves JoinClick (view s) (dial ?v)"
      using joined_room [of "view s"] by simp
    ultimately show ?thesis by simp
  qed
qed

lemma view_MessageInput:
  "view (step (MessageInput x) s) = view s \<or>
   moves (MessageInput x) (view s) (view (step (MessageInput x) s))"
proof -
  let ?s0 = "s\<lparr>messageInput := collapse_spaces x\<rparr>"
  let ?s1 = "?s0\<lparr>sendBtnDisabled := (trim (collapse_spaces x) = [])\<rparr>"
  show ?thesis
  proof (cases "socket_open s \<and> trim (collapse_spaces x) \<noteq> [] \<and> \<not> isTyping s")
    case False
    then show ?thesis
      by (auto simp: handleTyping_def Let_def socket_open_def case_prod_beta split: option.splits)
  next
    case True
    then obtain g where g: "socket s = Some g" "g < length (sockets s)"
        "readyState (sockets s ! g) = OPEN"
      by (auto simp: socket_open_def split: option.splits)
    have "\<exists>s2. socket_send typing_envelope (?s1\<lparr>isTyping := True\<rparr>) = Inr s2"
      using g by (simp add: socket_send_def)
    then obtain s2 where s2: "socket_send typing_envelope (?s1\<lparr>isTyping := True\<rparr>) = Inr s2"
      by blast
    then have v2: "view s2 = transmit typing_envelope ((view s)\<lparr>v_isTyping := True\<rparr>)"
      using view_socket_send_Inr [OF s2] by simp
    from True g s2 have "view (step (MessageInput x) s) = view s2"
      by (simp add: handleTyping_def Let_def socket_open_def case_prod_beta split: option.splits)
    moreover from True g have "moves (MessageInput x) (view s)
        (transmit typing_envelope ((view s)\<lparr>v_isTyping := True\<rparr>))"
      using typing_started [of "view s" g x] by simp
    ultimately show ?thesis using v2 by simp
  qed
qed


lemma view_settle_socket_send: "view (settle (socket_send env s)) = transmit env (view s)"
proof (cases "socket_send env s")
  case (Inl x)
  then show ?thesis
    using socket_send_Inl [of env s "fst x" "snd x"] by (cases x) simp
next
  case (Inr s')
  then show ?thesis
    using view_socket_send_Inr [of env s s'] by simp
qed

lemma view_settle_bind:
  assumes "\<And>s1. view (k s1) = view s1"
  shows "view (settle (case r of Inl x \<Rightarrow> Inl x | Inr s1 \<Rightarrow> Inr (k s1))) = view (settle r)"
proof (cases r)
  case (Inl x)
  then show ?thesis by simp
next
  case (Inr s1)
  then show ?thesis by (simp add: assms)
qed

lemma view_SendClick:
  "view (step (SendClick now) s) = view s \<or>
   moves (SendClick now) (view s) (view (step (SendClick now) s))"
proof (cases "trim (messageInput s) \<noteq> [] \<and> socket_open s")
  case False
  then show ?thesis
    by (auto simp: sendMessage_def Let_def)
next
  case True
  let ?m = "trim (messageInput s)"
  from True obtain g where g: "socket s = Some g" "g < length (sockets s)"
      "readyState (sockets s ! g) = OPEN"
    by (auto simp: socket_open_def split: option.splits)
  then obtain s1 where s1: "socket_send (chat_envelope ?m) s = Inr s1"
    by (simp add: socket_send_def)
  have v1: "view s1 = transmit (chat_envelope ?m) (view s)"
    using view_socket_send_Inr [OF s1] .
  then have t1: "isTyping s1 = isTyping s"
    using socket_send_Inr [OF s1] by simp
  let ?s3 = "(addChatMessage (currentUsername s1) ?m (Some (getCurrentTime now)) now s1)
               \<lparr>messageInput := [], sendBtnDisabled := True\<rparr>"
  let ?k = "\<lambda>s4. case typingTimeout s4 of None \<Rightarrow> s4 | Some t \<Rightarrow> clearTimeout t s4"
  have k: "\<And>s4. view (?k s4) = view s4"
    by (simp split: option.splits)
  have t3: "isTyping ?s3 = isTyping s"
    using t1 by (simp add: addChatMessage_def Let_def)
  have step_eq: "step (SendClick now) s =
      settle (case (if isTyping s then socket_send stop_typing_envelope (?s3\<lparr>isTyping := False\<rparr>)
                    else Inr ?s3) of
                Inl x \<Rightarrow> Inl x | Inr s4 \<Rightarrow> Inr (?k s4))"
    using True s1 t3 by (simp add: sendMessage_def Let_def)
  have "view (step (SendClick now) s) =
      (if isTyping s
       then transmit stop_typing_envelope ((transmit (chat_envelope ?m) (view s))\<lparr>v_isTyping := False\<rparr>)
       else transmit (chat_envelope ?m) (view s))"
    unfolding step_eq
    by (subst view_settle_bind [where k = ?k, OF k]) (simp add: view_settle_socket_send v1)
  moreover have "moves (SendClick now) (view s)
      (if v_isTyping (view s)
       then transmit stop_typing_envelope ((transmit (chat_envelope ?m) (view s))\<lparr>v_isTyping := False\<rparr>)
       else transmit (chat_envelope ?m) (view s))"
    using g by (intro chat_sent [of "view s" g]) simp_all
  ultimately show ?thesis by simp
qed

lemma view_RoomItemClick:
  "view (step (RoomItemClick room) s) = view s \<or>
   moves (RoomItemClick room) (view s) (view (step (RoomItemClick room) s))"
proof (cases "room = currentRoom s")
  case True
  then show ?thesis
    by (simp add: room_item_click_def closeRoomModal_def)
next
  case False
  let ?v = "(view s)\<lparr>v_currentRoom := room\<rparr>"
  show ?thesis
  proof (cases "roomConfig_name room")
    case None
    with False have "view (step (RoomItemClick room) s) = ?v"
      by (simp add: room_item_click_def switchRoom_def updateRoomUI_def)
    moreover from False None have "moves (RoomItemClick room) (view s) ?v"
      using switch_threw [of room "view s"] by simp
    ultimately show ?thesis by simp
  next
    case (Some name)
    with False have "view (step (RoomItemClick room) s) = dial (hang_up ?v)"
      by (simp add: room_item_click_def switchRoom_def updateRoomUI_def closeRoomModal_def
            view_connectWebSocket view_socket_close)
    moreover from False Some have "moves (RoomItemClick room) (view s) (dial (hang_up ?v))"
      using room_switched [of room "view s"] by simp
    ultimately show ?thesis by simp
  qed
qed

lemma view_LeaveClick:
  "view (step (LeaveClick b) s) = view s \<or>
   moves (LeaveClick b) (view s) (view (step (LeaveClick b) s))"
proof (cases b)
  case False
  then show ?thesis by (simp add: handleLeave_def)
next
  case True
  have "view (step (LeaveClick True) s) =
      (hang_up (view s))\<lparr>v_usernameInput := [], v_currentUsername := []\<rparr>"
    by (simp add: handleLeave_def view_socket_close)
  then show ?thesis
    using True left [of "view s"] by simp
qed

lemma view_SocketOpen:
  "view (step (SocketOpen j) s) = view s \<or>
   moves (SocketOpen j) (view s) (view (step (SocketOpen j) s))"
proof (cases "j < length (sockets s) \<and> readyState (sockets s ! j) = CONNECTING")
  case False
  then show ?thesis by auto
next
  case True
  let ?s1 = "set_readyState j OPEN s"
  let ?k = "\<lambda>s1. snd (setTimeout HideStatus 2000 (showConnectionStatus ''Connected'' False s1))"
  have names: "currentUsername ?s1 = currentUsername s" "currentRoom ?s1 = currentRoom s"
    by (simp_all add: set_readyState_def)
  have "view (settle (onopen ?s1)) =
      transmit (join_envelope (currentUsername s) (currentRoom s)) (mark j OPEN (view s))"
    unfolding onopen_def
    by (subst view_settle_bind [where k = ?k])
       (simp_all add: view_settle_socket_send view_set_readyState names)
  then show ?thesis
    using True opened [of j "view s"] by simp
qed

lemma view_SocketClose:
  "view (step (SocketClose j) s) = view s \<or>
   moves (SocketClose j) (view s) (view (step (SocketClose j) s))"
proof (cases "j < length (sockets s) \<and> readyState (sockets s ! j) \<noteq> CLOSED")
  case False
  then show ?thesis by auto
next
  case True
  have "view (onclose (set_readyState j CLOSED s)) = mark j CLOSED (view s)"
    by (simp add: onclose_def view_set_readyState)
  then show ?thesis
    using True closed [of j "view s"] by simp
qed

lemma view_TimerFire:
  "view (step (TimerFire t) s) = view s \<or>
   moves (TimerFire t) (view s) (view (step (TimerFire t) s))"
proof (cases "map_of (timers s) t")
  case None
  then show ?thesis by simp
next
  case (Some p)
  obtain delay cb where p: "p = (delay, cb)" by (cases p)
  show ?thesis
  proof (cases cb)
    case ResetBorder
    with Some p show ?thesis by simp
  next
    case HideStatus
    with Some p show ?thesis by simp
  next
    case Reconnect
    with Some p show ?thesis
      using reconnected [of t "view s"] by (simp add: view_connectWebSocket)
  next
    case StopTyping
    show ?thesis
    proof (cases "isTyping s")
      case False
      with Some p StopTyping show ?thesis by (simp add: clearTimeout_def)
    next
      case True
      then have "isTyping (clearTimeout t s)" by (simp add: clearTimeout_def)
      with Some p StopTyping have "view (step (TimerFire t) s) =
          transmit stop_typing_envelope ((view s)\<lparr>v_isTyping := False\<rparr>)"
        by (simp add: view_settle_socket_send)
      then show ?thesis
        using True typing_stopped [of "view s" t] by simp
    qed
  qed
qed

lemma view_step: "view (step e s) = view s \<or> moves e (view s) (view (step e s))"
proof (cases e)
  case (UsernameInput x)
  then show ?thesis using username_edited [of x "view s"] by simp
next
  case (RoomSelect x)
  then show ?thesis using room_selected [of x "view s"] by simp
next
  case JoinClick
  then show ?thesis using view_JoinClick by simp
next
  case (MessageInput x)
  then show ?thesis using view_MessageInput by simp
next
  case (SendClick now)
  then show ?thesis using view_SendClick by simp
next
  case RoomSwitchClick
  then show ?thesis by (simp add: openRoomModal_def)
next
  case CloseModalClick
  then show ?thesis by (simp add: closeRoomModal_def)
next
  case (RoomItemClick room)
  then show ?thesis using view_RoomItemClick by simp
next
  case (LeaveClick b)
  then show ?thesis using view_LeaveClick by simp
next
  case (SocketOpen j)
  then show ?thesis using view_SocketOpen by simp
next
  case (SocketMessage j frame now)
  then show ?thesis by (simp add: onmessage_def settle_def split: option.splits)
next
  case (SocketError j)
  then show ?thesis by (simp add: onerror_def)
next
  case (SocketClose j)
  then show ?thesis using view_SocketClose by simp
next
  case (TimerFire t)
  then show ?thesis using view_TimerFire by simp
qed

subsection \<open>The join envelope comes first\<close>

lemma is_join_iff: "is_join e \<longleftrightarrow> (\<exists>u r. e = join_envelope u r)"
proof
  assume "is_join e"
  then obtain a b where "e = [a, b]" "fst a = ''username''" "fst b = ''room''"
    by (auto simp: is_join_def map_eq_Cons_conv)
  then have "e = join_envelope (snd a) (snd b)"
    by (cases a, cases b) (simp add: join_envelope_def)
  then show "\<exists>u r. e = join_envelope u r" by blast
next
  assume "\<exists>u r. e = join_envelope u r"
  then show "is_join e" by (auto simp: is_join_def join_envelope_def)
qed

lemma join_first_single: "join_first [e] = is_join e"
  by (simp add: join_first_def)

lemma join_first_snoc:
  "join_first es \<Longrightarrow> es \<noteq> [] \<or> is_join e \<Longrightarrow> join_first (es @ [e])"
  by (cases es) (auto simp: join_first_def)

lemma nth_update_if: "i < length xs \<Longrightarrow> (xs[j := y]) ! i = (if i = j then y else xs ! i)"
  by (cases "i = j") simp_all

lemma net_inv_dial: "net_inv v \<Longrightarrow> net_inv (dial v)"
  by (auto simp: net_inv_def dial_def nth_append join_first_def)

lemma net_inv_hang_up: "net_inv v \<Longrightarrow> net_inv (hang_up v)"
  by (auto simp: net_inv_def hang_up_def nth_update_if split: option.splits)

lemma net_inv_mark_CLOSED: "net_inv v \<Longrightarrow> net_inv (mark j CLOSED v)"
  by (auto simp: net_inv_def mark_def nth_update_if)

text \<open>Any envelope may follow on the current socket once it is open, for an open current
  socket has sent its join envelope.\<close>

lemma net_inv_transmit: "net_inv v \<Longrightarrow> net_inv (transmit env v)"
  by (auto simp: net_inv_def transmit_def nth_update_if join_first_snoc split: option.splits)

lemma net_inv_opened:
  assumes "net_inv v" and "j < length (v_sockets v)" and "readyState (v_sockets v ! j) = CONNECTING"
  shows "net_inv (transmit (join_envelope u r) (mark j OPEN v))"
proof -
  have j: "is_join (join_envelope u r)"
    by (simp add: is_join_iff) blast
  show ?thesis
    using assms j
    by (auto simp: net_inv_def transmit_def mark_def nth_update_if join_first_snoc
          join_first_single split: option.splits)
qed

lemma net_inv_fields:
  "net_inv v \<Longrightarrow> v_socket v' = v_socket v \<Longrightarrow> v_sockets v' = v_sockets v \<Longrightarrow> net_inv v'"
  by (simp add: net_inv_def)

lemma net_inv_moves: "moves e v v' \<Longrightarrow> net_inv v \<Longrightarrow> net_inv v'"
proof (induction rule: moves.induct)
  case (username_edited x v)
  then show ?case by (rule net_inv_fields) simp_all
next
  case (room_selected x v)
  then show ?case by (rule net_inv_fields) simp_all
next
  case (joined_room v)
  from joined_room(4) have "net_inv (v\<lparr>v_currentUsername := trim (v_usernameInput v), v_currentRoom := v_roomSelect v\<rparr>)"
    by (rule net_inv_fields) simp_all
  then show ?case by (rule net_inv_dial)
next
  case (join_threw v)
  from join_threw(4) show ?case by (rule net_inv_fields) simp_all
next
  case (typing_started v g x)
  from typing_started(5) have "net_inv (v\<lparr>v_isTyping := True\<rparr>)"
    by (rule net_inv_fields) simp_all
  then show ?case by (rule net_inv_transmit)
next
  case (chat_sent v g now m)
  have a: "net_inv (transmit (chat_envelope m) v)"
    using chat_sent(4) by (rule net_inv_transmit)
  then have "net_inv ((transmit (chat_envelope m) v)\<lparr>v_isTyping := False\<rparr>)"
    by (rule net_inv_fields) simp_all
  then have "net_inv (transmit stop_typing_envelope ((transmit (chat_envelope m) v)\<lparr>v_isTyping := False\<rparr>))"
    by (rule net_inv_transmit)
  with a show ?case by simp
next
  case (room_switched room v)
  from room_switched(3) have "net_inv (v\<lparr>v_currentRoom := room\<rparr>)"
    by (rule net_inv_fields) simp_all
  then show ?case by (intro net_inv_dial net_inv_hang_up)
next
  case (switch_threw room v)
  from switch_threw(3) show ?case by (rule net_inv_fields) simp_all
next
  case (left v)
  then have "net_inv (hang_up v)" by (rule net_inv_hang_up)
  then show ?case by (rule net_inv_fields) simp_all
next
  case (opened j v)
  then show ?case by (intro net_inv_opened)
next
  case (closed j v)
  then show ?case by (intro net_inv_mark_CLOSED)
next
  case (reconnected t v)
  then show ?case by (rule net_inv_dial)
next
  case (typing_stopped v t)
  from typing_stopped(2) have "net_inv (v\<lparr>v_isTyping := False\<rparr>)"
    by (rule net_inv_fields) simp_all
  then show ?case by (rule net_inv_transmit)
qed

lemma net_inv_step: "net_inv (view s) \<Longrightarrow> net_inv (view (step e s))"
  using view_step [of e s] net_inv_moves [of e "view s" "view (step e s)"] by auto

lemma net_inv_init: "net_inv (view init)"
  by (simp add: net_inv_def init_def)





lemma dial_old_sockets: "i < length (v_sockets v) \<Longrightarrow> v_sockets (dial v) ! i = v_sockets v ! i"
  by (simp add: dial_def nth_append)

lemma sent_hang_up:
  "i < length (v_sockets v) \<Longrightarrow> sent (v_sockets (hang_up v) ! i) = sent (v_sockets v ! i)"
  by (auto simp: hang_up_def nth_update_if split: option.splits)

lemma sent_mark:
  "i < length (v_sockets v) \<Longrightarrow> sent (v_sockets (mark j r v) ! i) = sent (v_sockets v ! i)"
  by (auto simp: mark_def nth_update_if)

lemma length_hang_up [simp]: "length (v_sockets (hang_up v)) = length (v_sockets v)"
  by (simp add: hang_up_def split: option.splits)

lemma length_transmit [simp]: "length (v_sockets (transmit env v)) = length (v_sockets v)"
  by (simp add: transmit_def split: option.splits)

lemma length_mark [simp]: "length (v_sockets (mark j r v)) = length (v_sockets v)"
  by (simp add: mark_def)







subsection \<open>What the socket operations do to one socket\<close>

lemma transmit_fields [simp]:
  "v_socket (transmit env v) = v_socket v"
  "v_isTyping (transmit env v) = v_isTyping v"
  "v_currentUsername (transmit env v) = v_currentUsername v"
  "v_currentRoom (transmit env v) = v_currentRoom v"
  "v_usernameInput (transmit env v) = v_usernameInput v"
  "v_roomSelect (transmit env v) = v_roomSelect v"
  by (simp_all add: transmit_def split: option.splits)

lemma hang_up_fields [simp]:
  "v_socket (hang_up v) = v_socket v"
  "v_isTyping (hang_up v) = v_isTyping v"
  "v_currentUsername (hang_up v) = v_currentUsername v"
  "v_currentRoom (hang_up v) = v_currentRoom v"
  "v_usernameInput (hang_up v) = v_usernameInput v"
  "v_roomSelect (hang_up v) = v_roomSelect v"
  by (simp_all add: hang_up_def split: option.splits)

lemma dial_fields [simp]:
  "v_socket (dial v) = Some (length (v_sockets v))"
  "length (v_sockets (dial v)) = Suc (length (v_sockets v))"
  "v_sockets (dial v) ! length (v_sockets v) = \<lparr>readyState = CONNECTING, sent = []\<rparr>"
  "v_isTyping (dial v) = v_isTyping v"
  "v_currentUsername (dial v) = v_currentUsername v"
  "v_currentRoom (dial v) = v_currentRoom v"
  "v_usernameInput (dial v) = v_usernameInput v"
  "v_roomSelect (dial v) = v_roomSelect v"
  by (simp_all add: dial_def)

lemma mark_fields [simp]:
  "v_socket (mark j r v) = v_socket v"
  "v_isTyping (mark j r v) = v_isTyping v"
  "v_currentUsername (mark j r v) = v_currentUsername v"
  "v_currentRoom (mark j r v) = v_currentRoom v"
  "v_usernameInput (mark j r v) = v_usernameInput v"
  "v_roomSelect (mark j r v) = v_roomSelect v"
  by (simp_all add: mark_def)

lemma sent_transmit:
  "i < length (v_sockets v) \<Longrightarrow>
   sent (v_sockets (transmit env v) ! i) =
     (if v_socket v = Some i \<and> readyState (v_sockets v ! i) = OPEN
      then sent (v_sockets v ! i) @ [env] else sent (v_sockets v ! i))"
  by (auto simp: transmit_def nth_update_if split: option.splits)

lemma readyState_transmit [simp]:
  "i < length (v_sockets v) \<Longrightarrow>
   readyState (v_sockets (transmit env v) ! i) = readyState (v_sockets v ! i)"
  by (auto simp: transmit_def nth_update_if split: option.splits)

lemma readyState_hang_up:
  "i < length (v_sockets v) \<Longrightarrow>
   readyState (v_sockets (hang_up v) ! i) =
     (if v_socket v = Some i \<and> readyState (v_sockets v ! i) \<noteq> CLOSED
      then CLOSING else readyState (v_sockets v ! i))"
  by (auto simp: hang_up_def nth_update_if split: option.splits)

lemma readyState_mark:
  "i < length (v_sockets v) \<Longrightarrow>
   readyState (v_sockets (mark j r v) ! i) = (if i = j then r else readyState (v_sockets v ! i))"
  by (auto simp: mark_def nth_update_if)

lemmas socket_effects =
  sent_transmit sent_hang_up sent_mark dial_old_sockets readyState_hang_up readyState_mark

subsection \<open>Typing notices\<close>

lemma envelopes_distinct [simp]:
  "typing_envelope \<noteq> stop_typing_envelope"
  "stop_typing_envelope \<noteq> typing_envelope"
  "chat_envelope m \<noteq> typing_envelope"
  "chat_envelope m \<noteq> stop_typing_envelope"
  "join_envelope u r \<noteq> typing_envelope"
  "join_envelope u r \<noteq> stop_typing_envelope"
  by (simp_all add: typing_envelope_def stop_typing_envelope_def chat_envelope_def
        join_envelope_def)

lemma typing_pending_snoc:
  "typing_pending t (es @ [e]) =
     (if e = typing_envelope then True
      else if e = stop_typing_envelope then False else typing_pending t es)"
  by (induction es arbitrary: t) simp_all

lemma no_double_typing_snoc:
  "no_double_typing t (es @ [e]) =
     (no_double_typing t es \<and> (e = typing_envelope \<longrightarrow> \<not> typing_pending t es))"
  by (induction es arbitrary: t) auto

lemma typing_inv_fields:
  "typing_inv v \<Longrightarrow> v_socket v' = v_socket v \<Longrightarrow> v_sockets v' = v_sockets v \<Longrightarrow>
   v_isTyping v' = v_isTyping v \<Longrightarrow> typing_inv v'"
  by (simp add: typing_inv_def)

lemma typing_inv_dial: "typing_inv v \<Longrightarrow> typing_inv (dial v)"
  unfolding typing_inv_def
  by (auto simp: All_less_Suc Ex_less_Suc dial_old_sockets)

lemma typing_inv_hang_up: "typing_inv v \<Longrightarrow> typing_inv (hang_up v)"
  unfolding typing_inv_def
  by (auto simp: sent_hang_up readyState_hang_up)

lemma typing_inv_mark_CLOSED: "typing_inv v \<Longrightarrow> typing_inv (mark j CLOSED v)"
  unfolding typing_inv_def
  by (auto simp: sent_mark readyState_mark)

text \<open>An envelope that is no typing notice changes nothing.\<close>

lemma typing_inv_transmit_other:
  assumes "typing_inv v" and "env \<noteq> typing_envelope" and "env \<noteq> stop_typing_envelope"
  shows "typing_inv (transmit env v)"
  using assms unfolding typing_inv_def
  by (auto simp: sent_transmit typing_pending_snoc no_double_typing_snoc)


lemma typing_inv_typing_started:
  assumes "typing_inv v" and "v_socket v = Some g" and "g < length (v_sockets v)"
    and "readyState (v_sockets v ! g) = OPEN" and "\<not> v_isTyping v"
  shows "typing_inv (transmit typing_envelope (v\<lparr>v_isTyping := True\<rparr>))"
proof -
  have "typing_pending False (sent (v_sockets (transmit typing_envelope (v\<lparr>v_isTyping := True\<rparr>)) ! g))"
    using assms by (simp add: sent_transmit typing_pending_snoc)
  then have "\<exists>i < length (v_sockets v).
      typing_pending False (sent (v_sockets (transmit typing_envelope (v\<lparr>v_isTyping := True\<rparr>)) ! i))"
    using assms(3) by blast
  moreover have "\<forall>i < length (v_sockets v).
      no_double_typing False (sent (v_sockets (transmit typing_envelope (v\<lparr>v_isTyping := True\<rparr>)) ! i))"
    using assms unfolding typing_inv_def
    by (auto simp: sent_transmit no_double_typing_snoc)
  ultimately show ?thesis
    by (simp add: typing_inv_def)
qed

lemma typing_inv_stop:
  assumes "typing_inv v"
  shows "typing_inv (transmit stop_typing_envelope (v\<lparr>v_isTyping := False\<rparr>))"
  using assms unfolding typing_inv_def
  by (auto simp: sent_transmit typing_pending_snoc no_double_typing_snoc)

lemma typing_inv_opened:
  assumes "typing_inv v" and "net_inv v" and "j < length (v_sockets v)"
    and "readyState (v_sockets v ! j) = CONNECTING"
  shows "typing_inv (transmit (join_envelope u r) (mark j OPEN v))"
proof -
  let ?v' = "transmit (join_envelope u r) (mark j OPEN v)"
  have empty: "sent (v_sockets v ! j) = []"
    using assms(2-4) by (simp add: net_inv_def)
  have pend: "\<And>i. i < length (v_sockets v) \<Longrightarrow>
      typing_pending False (sent (v_sockets ?v' ! i)) = typing_pending False (sent (v_sockets v ! i))"
    by (simp add: sent_transmit sent_mark readyState_mark typing_pending_snoc)
  have ndt: "\<And>i. i < length (v_sockets v) \<Longrightarrow>
      no_double_typing False (sent (v_sockets ?v' ! i)) = no_double_typing False (sent (v_sockets v ! i))"
    by (simp add: sent_transmit sent_mark readyState_mark no_double_typing_snoc)
  have two: "\<forall>g < length (v_sockets v). v_socket v = Some g \<longrightarrow>
      readyState (v_sockets ?v' ! g) = OPEN \<longrightarrow> \<not> v_isTyping v \<longrightarrow>
      \<not> typing_pending False (sent (v_sockets v ! g))"
  proof (intro allI impI)
    fix g assume g: "g < length (v_sockets v)" "v_socket v = Some g"
      "readyState (v_sockets ?v' ! g) = OPEN" "\<not> v_isTyping v"
    show "\<not> typing_pending False (sent (v_sockets v ! g))"
    proof (cases "g = j")
      case True
      with empty show ?thesis by simp
    next
      case False
      with g have "readyState (v_sockets v ! g) = OPEN"
        by (simp add: readyState_mark)
      with assms(1) g show ?thesis by (simp add: typing_inv_def)
    qed
  qed
  from assms(1) two show ?thesis
    by (simp add: typing_inv_def pend ndt cong: conj_cong)
qed

lemma typing_inv_moves: "moves e v v' \<Longrightarrow> net_inv v \<Longrightarrow> typing_inv v \<Longrightarrow> typing_inv v'"
proof (induction rule: moves.induct)
  case (username_edited x v)
  from username_edited(2) show ?case by (rule typing_inv_fields) simp_all
next
  case (room_selected x v)
  from room_selected(2) show ?case by (rule typing_inv_fields) simp_all
next
  case (joined_room v)
  from joined_room(5)
  have "typing_inv (v\<lparr>v_currentUsername := trim (v_usernameInput v), v_currentRoom := v_roomSelect v\<rparr>)"
    by (rule typing_inv_fields) simp_all
  then show ?case by (rule typing_inv_dial)
next
  case (join_threw v)
  from join_threw(5) show ?case by (rule typing_inv_fields) simp_all
next
  case (typing_started v g x)
  then show ?case by (intro typing_inv_typing_started)
next
  case (chat_sent v g now m)
  have a: "typing_inv (transmit (chat_envelope m) v)"
    using chat_sent(5) by (intro typing_inv_transmit_other) simp_all
  then have "typing_inv (transmit stop_typing_envelope ((transmit (chat_envelope m) v)\<lparr>v_isTyping := False\<rparr>))"
    by (rule typing_inv_stop)
  with a show ?case by simp
next
  case (room_switched room v)
  from room_switched(4) have "typing_inv (v\<lparr>v_currentRoom := room\<rparr>)"
    by (rule typing_inv_fields) simp_all
  then show ?case by (intro typing_inv_dial typing_inv_hang_up)
next
  case (switch_threw room v)
  from switch_threw(4) show ?case by (rule typing_inv_fields) simp_all
next
  case (left v)
  then have "typing_inv (hang_up v)" by (intro typing_inv_hang_up)
  then show ?case by (rule typing_inv_fields) simp_all
next
  case (opened j v)
  then show ?case by (intro typing_inv_opened)
next
  case (closed j v)
  then show ?case by (intro typing_inv_mark_CLOSED)
next
  case (reconnected t v)
  then show ?case by (intro typing_inv_dial)
next
  case (typing_stopped v t)
  then show ?case by (intro typing_inv_stop)
qed

lemma typing_inv_init: "typing_inv (view init)"
  by (simp add: typing_inv_def init_def)

lemma typing_inv_exec:
  "net_inv (view s) \<Longrightarrow> typing_inv (view s) \<Longrightarrow> typing_inv (view (exec es s))"
proof (induction es arbitrary: s)
  case Nil
  then show ?case by simp
next
  case (Cons e es)
  have "typing_inv (view (step e s))"
    using view_step [of e s] typing_inv_moves [of e "view s" "view (step e s)"] Cons.prems
    by auto
  with Cons.IH [of "step e s"] net_inv_step [OF Cons.prems(1), of e] show ?case
    by simp
qed

lemma typing_inv_reachable: "typing_inv (view (exec es init))"
  by (intro typing_inv_exec net_inv_init typing_inv_init)


lemma count_list_snoc: "count_list (xs @ [y]) x = count_list xs x + (if x = y then 1 else 0)"
  by (induction xs) simp_all

text \<open>A step that transmits a typing envelope finds \<open>isTyping\<close> clear and sets it; a step
  that transmits a stop_typing envelope finds it set and clears it.\<close>

lemma moves_typing_toggle:
  assumes "moves e v v'" and "i < length (v_sockets v)"
  shows "(count_list (sent (v_sockets v ! i)) typing_envelope
            < count_list (sent (v_sockets v' ! i)) typing_envelope \<longrightarrow>
          \<not> v_isTyping v \<and> v_isTyping v') \<and>
         (count_list (sent (v_sockets v ! i)) stop_typing_envelope
            < count_list (sent (v_sockets v' ! i)) stop_typing_envelope \<longrightarrow>
          v_isTyping v \<and> \<not> v_isTyping v')"
  using assms
  by (induction rule: moves.induct)
     (simp_all add: socket_effects count_list_snoc)

lemma step_typing_toggle:
  assumes "i < length (sockets s)"
  shows "(count_list (sent (sockets s ! i)) typing_envelope
            < count_list (sent (sockets (step e s) ! i)) typing_envelope \<longrightarrow>
          \<not> isTyping s \<and> isTyping (step e s)) \<and>
         (count_list (sent (sockets s ! i)) stop_typing_envelope
            < count_list (sent (sockets (step e s) ! i)) stop_typing_envelope \<longrightarrow>
          isTyping s \<and> \<not> isTyping (step e s))"
proof -
  from view_step [of e s] show ?thesis
  proof
    assume "view (step e s) = view s"
    then have "v_sockets (view (step e s)) = v_sockets (view s)" by simp
    then have "sockets (step e s) = sockets s" by simp
    then show ?thesis by simp
  next
    assume "moves e (view s) (view (step e s))"
    from moves_typing_toggle [OF this, of i] assms
    show ?thesis by (simp del: step.simps)
  qed
qed

text \<open>
  Claim C9, as amended. On every connection the client never sends two typing envelopes
  without a stop_typing envelope in between. Every send of either kind is guarded by, and
  toggles, the \<open>isTyping\<close> flag: a step that sends a typing envelope finds the flag clear
  and sets it, a step that sends a stop_typing envelope finds it set and clears it. The
  flag is one for all connections and survives a room switch or reconnect: while it is
  set, a typing envelope is outstanding on some connection, which need not be the
  connection the stop_typing envelope is then sent on.
\<close>

theorem typing_notices:
  "(\<forall>w \<in> set (sockets (exec es init)). no_double_typing False (sent w)) \<and>
   (isTyping (exec es init) \<longrightarrow>
      (\<exists>w \<in> set (sockets (exec es init)). typing_pending False (sent w))) \<and>
   (\<forall>i < length (sockets s).
      (count_list (sent (sockets s ! i)) typing_envelope
         < count_list (sent (sockets (step e s) ! i)) typing_envelope \<longrightarrow>
       \<not> isTyping s \<and> isTyping (step e s)) \<and>
      (count_list (sent (sockets s ! i)) stop_typing_envelope
         < count_list (sent (sockets (step e s) ! i)) stop_typing_envelope \<longrightarrow>
       isTyping s \<and> \<not> isTyping (step e s)))"
proof -
  let ?r = "exec es init"
  have inv: "typing_inv (view ?r)" by (rule typing_inv_reachable)
  have one: "\<forall>w \<in> set (sockets ?r). no_double_typing False (sent w)"
    using inv by (auto simp: typing_inv_def in_set_conv_nth)
  have two: "isTyping ?r \<longrightarrow> (\<exists>w \<in> set (sockets ?r). typing_pending False (sent w))"
  proof
    assume "isTyping ?r"
    with inv obtain i where "i < length (sockets ?r)"
        "typing_pending False (sent (sockets ?r ! i))"
      by (auto simp: typing_inv_def)
    then show "\<exists>w \<in> set (sockets ?r). typing_pending False (sent w)"
      using nth_mem by blast
  qed
  from one two step_typing_toggle [of _ s e] show ?thesis by blast
qed

theorem typing_notices_witness:
  "isTyping chatting \<and> 0 < length (sockets joined) \<and>
   count_list (sent (sockets joined ! 0)) typing_envelope
     < count_list (sent (sockets (step (MessageInput ''hi'') joined) ! 0)) typing_envelope \<and>
   (\<exists>w. w \<in> set (sockets chatting) \<and> typing_pending False (sent w)) \<and>
   \<not> isTyping joined \<and> isTyping (step (MessageInput ''hi'') joined)"
proof -
  have a: "isTyping (exec [UsernameInput ''ann'', JoinClick, SocketOpen 0, MessageInput ''hi''] init)"
    by code_simp
  have b: "0 < length (sockets joined)" by code_simp
  have c: "count_list (sent (sockets joined ! 0)) typing_envelope
     < count_list (sent (sockets (step (MessageInput ''hi'') joined) ! 0)) typing_envelope"
    by code_simp
  from typing_notices [of "[UsernameInput ''ann'', JoinClick, SocketOpen 0, MessageInput ''hi'']"
      joined "MessageInput ''hi''"] a b c
  show ?thesis
    unfolding chatting_def by blast
qed

text \<open>
  The claim as stated fails on the second connection of this session: the user types in
  room \<open>general\<close>, switches to room \<open>tech\<close> within the second, the new socket opens, and the
  timeout of the debounce sends stop_typing on the new connection, where no typing
  envelope was ever sent.
\<close>

theorem typing_alternation_counterexample:
  "sent (sockets (exec [UsernameInput ''ann'', JoinClick, SocketOpen 0, MessageInput ''hi'',
                        RoomSwitchClick, RoomItemClick ''tech'', SocketOpen 1, TimerFire 2] init) ! 1) =
     [join_envelope ''ann'' ''tech'', stop_typing_envelope] \<and>
   \<not> alternating False
        (sent (sockets (exec [UsernameInput ''ann'', JoinClick, SocketOpen 0, MessageInput ''hi'',
                              RoomSwitchClick, RoomItemClick ''tech'', SocketOpen 1, TimerFire 2] init) ! 1))"
  by code_simp

subsection \<open>Usernames\<close>

lemma name_ok_username_filter: "name_ok (username_filter x)"
  by (simp add: name_ok_def username_filter_def)

lemma set_trim: "set (trim u) \<subseteq> set u"
proof -
  have "set (trim u) = set (dropWhile is_space (rev (dropWhile is_space u)))"
    by (simp add: trim_def)
  also have "\<dots> \<subseteq> set (rev (dropWhile is_space u))"
    by (rule set_dropWhileD [THEN subsetI])
  also have "\<dots> \<subseteq> set u"
    by (auto dest: set_dropWhileD)
  finally show ?thesis .
qed

lemma name_ok_trim: "name_ok u \<Longrightarrow> name_ok (trim u)"
  using set_trim [of u] by (auto simp: name_ok_def)

lemma no_username_field [simp]:
  "map_of typing_envelope ''username'' = None"
  "map_of stop_typing_envelope ''username'' = None"
  "map_of (chat_envelope m) ''username'' = None"
  "map_of (join_envelope u r) ''username'' = Some u"
  by (simp_all add: typing_envelope_def stop_typing_envelope_def chat_envelope_def
        join_envelope_def)

lemma name_inv_dial: "name_inv v \<Longrightarrow> name_inv (dial v)"
  unfolding name_inv_def by (auto simp: All_less_Suc dial_old_sockets)

lemma name_inv_hang_up: "name_inv v \<Longrightarrow> name_inv (hang_up v)"
  unfolding name_inv_def by (auto simp: sent_hang_up)

lemma name_inv_mark: "name_inv v \<Longrightarrow> name_inv (mark j r v)"
  unfolding name_inv_def by (auto simp: sent_mark)

lemma name_inv_transmit:
  assumes "name_inv v" and "\<And>u. map_of env ''username'' = Some u \<Longrightarrow> name_ok u"
  shows "name_inv (transmit env v)"
  using assms unfolding name_inv_def
  by (auto simp: sent_transmit split: if_splits)

lemma name_inv_moves: "moves e v v' \<Longrightarrow> name_inv v \<Longrightarrow> name_inv v'"
proof (induction rule: moves.induct)
  case (username_edited x v)
  then show ?case by (simp add: name_inv_def name_ok_username_filter)
next
  case (room_selected x v)
  then show ?case by (simp add: name_inv_def)
next
  case (joined_room v)
  from joined_room(4)
  have "name_inv (v\<lparr>v_currentUsername := trim (v_usernameInput v), v_currentRoom := v_roomSelect v\<rparr>)"
    by (simp add: name_inv_def name_ok_trim)
  then show ?case by (rule name_inv_dial)
next
  case (join_threw v)
  from join_threw(4) show ?case by (simp add: name_inv_def name_ok_trim)
next
  case (typing_started v g x)
  from typing_started(5) have "name_inv (v\<lparr>v_isTyping := True\<rparr>)"
    by (simp add: name_inv_def)
  then show ?case by (rule name_inv_transmit) simp
next
  case (chat_sent v g now m)
  have a: "name_inv (transmit (chat_envelope m) v)"
    using chat_sent(4) by (rule name_inv_transmit) simp
  then have "name_inv ((transmit (chat_envelope m) v)\<lparr>v_isTyping := False\<rparr>)"
    by (simp add: name_inv_def)
  then have "name_inv (transmit stop_typing_envelope ((transmit (chat_envelope m) v)\<lparr>v_isTyping := False\<rparr>))"
    by (rule name_inv_transmit) simp
  with a show ?case by simp
next
  case (room_switched room v)
  from room_switched(3) have "name_inv (v\<lparr>v_currentRoom := room\<rparr>)"
    by (simp add: name_inv_def)
  then show ?case by (intro name_inv_dial name_inv_hang_up)
next
  case (switch_threw room v)
  from switch_threw(3) show ?case by (simp add: name_inv_def)
next
  case (left v)
  then have "name_inv (hang_up v)" by (intro name_inv_hang_up)
  then show ?case by (simp add: name_inv_def name_ok_def)
next
  case (opened j v)
  from opened(3) have "name_inv (mark j OPEN v)" by (rule name_inv_mark)
  moreover from opened(3) have "name_ok (v_currentUsername v)" by (simp add: name_inv_def)
  ultimately show ?case by (intro name_inv_transmit) simp_all
next
  case (closed j v)
  then show ?case by (intro name_inv_mark)
next
  case (reconnected t v)
  then show ?case by (intro name_inv_dial)
next
  case (typing_stopped v t)
  from typing_stopped(2) have "name_inv (v\<lparr>v_isTyping := False\<rparr>)"
    by (simp add: name_inv_def)
  then show ?case by (rule name_inv_transmit) simp
qed

lemma name_inv_init: "name_inv (view init)"
  by (simp add: name_inv_def init_def name_ok_def)

lemma name_inv_exec: "name_inv (view s) \<Longrightarrow> name_inv (view (exec es s))"
proof (induction es arbitrary: s)
  case Nil
  then show ?case by simp
next
  case (Cons e es)
  have "name_inv (view (step e s))"
    using view_step [of e s] name_inv_moves [of e "view s" "view (step e s)"] Cons.prems
    by auto
  with Cons.IH [of "step e s"] show ?case by simp
qed

lemma name_inv_reachable: "name_inv (view (exec es init))"
  by (intro name_inv_exec name_inv_init)

lemma handleJoin_rejects:
  assumes "trim (usernameInput s) = [] \<or> 20 < length (trim (usernameInput s))"
  shows "\<exists>s'. handleJoin s = Inr s' \<and> sockets s' = sockets s \<and> socket s' = socket s \<and>
           currentUsername s' = currentUsername s \<and> currentRoom s' = currentRoom s \<and>
           chatScreenHidden s' = chatScreenHidden s \<and> loginScreenHidden s' = loginScreenHidden s"
  using assms by (auto simp: handleJoin_def Let_def setTimeout_def)


text \<open>
  Claim C3, as amended. A join with an invalid username is rejected and no connection is
  established: for every state, if the trimmed username is empty or longer than 20
  characters, \<open>handleJoin\<close> returns without connecting and without changing the username,
  the room or the screens. And every \<open>username\<close> field the client ever transmits contains
  only alphanumeric characters, underscores and white-space characters, the class \<open>\s\<close>
  of the filter, which holds the space and also the tab and the other white space.
\<close>

theorem username_validation:
  "(trim (usernameInput s) = [] \<or> 20 < length (trim (usernameInput s)) \<longrightarrow>
      (\<exists>s'. handleJoin s = Inr s' \<and> sockets s' = sockets s \<and> socket s' = socket s \<and>
            currentUsername s' = currentUsername s \<and> currentRoom s' = currentRoom s \<and>
            chatScreenHidden s' = chatScreenHidden s \<and>
            loginScreenHidden s' = loginScreenHidden s)) \<and>
   (\<forall>w \<in> set (sockets (exec es init)). \<forall>e \<in> set (sent w). \<forall>u.
      map_of e ''username'' = Some u \<longrightarrow> (\<forall>c \<in> set u. is_word c \<or> is_space c))"
proof -
  have inv: "name_inv (view (exec es init))" by (rule name_inv_reachable)
  have "\<forall>w \<in> set (sockets (exec es init)). \<forall>e \<in> set (sent w). \<forall>u.
      map_of e ''username'' = Some u \<longrightarrow> name_ok u"
  proof (intro ballI allI impI)
    fix w e u
    assume w: "w \<in> set (sockets (exec es init))" and e: "e \<in> set (sent w)"
      and u: "map_of e ''username'' = Some u"
    from w obtain i where "i < length (sockets (exec es init))" "w = sockets (exec es init) ! i"
      by (auto simp: in_set_conv_nth)
    with inv e u show "name_ok u"
      unfolding name_inv_def by (simp del: exec.simps)
  qed
  then have "\<forall>w \<in> set (sockets (exec es init)). \<forall>e \<in> set (sent w). \<forall>u.
      map_of e ''username'' = Some u \<longrightarrow> (\<forall>c \<in> set u. is_word c \<or> is_space c)"
    by (simp add: name_ok_def)
  with handleJoin_rejects [of s] show ?thesis by blast
qed

theorem username_validation_witness:
  "trim (usernameInput init) = [] \<and> sockets (settle (handleJoin init)) = [] \<and>
   sockets (exec [UsernameInput ''a-b c!'', JoinClick, SocketOpen 0] init) ! 0
     \<in> set (sockets (exec [UsernameInput ''a-b c!'', JoinClick, SocketOpen 0] init)) \<and>
   join_envelope ''ab c'' ''general''
     \<in> set (sent (sockets (exec [UsernameInput ''a-b c!'', JoinClick, SocketOpen 0] init) ! 0)) \<and>
   map_of (join_envelope ''ab c'' ''general'') ''username'' = Some ''ab c'' \<and>
   name_ok ''ab c''"
proof -
  let ?es = "[UsernameInput ''a-b c!'', JoinClick, SocketOpen 0]"
  have a: "trim (usernameInput init) = []" by code_simp
  have b: "sockets init = []" by code_simp
  have c: "sockets (exec ?es init) ! 0 \<in> set (sockets (exec ?es init))" by code_simp
  have d: "join_envelope ''ab c'' ''general'' \<in> set (sent (sockets (exec ?es init) ! 0))"
    by code_simp
  have e: "map_of (join_envelope ''ab c'' ''general'') ''username'' = Some ''ab c''"
    by simp
  from username_validation [of init ?es] a
  obtain s' where s': "handleJoin init = Inr s'" "sockets s' = sockets init"
    by blast
  from username_validation [of init ?es] c d e
  have "\<forall>c \<in> set ''ab c''. is_word c \<or> is_space c"
    by blast
  then have "name_ok ''ab c''"
    by (simp only: name_ok_def)
  with a b c d e s' show ?thesis
    by (simp only: settle_Inr simp_thms)
qed

text \<open>
  The claim as stated fails for a tab inside the name: the filter keeps every character
  of \<open>\s\<close>, \<open>trim\<close> removes white space at the two ends only, and the join envelope
  carries the tab, which is neither alphanumeric, nor an underscore, nor a space.
\<close>

theorem username_tab_counterexample:
  "sent (sockets (exec [UsernameInput [CHR ''a'', CHR 0x09, CHR ''b''], JoinClick, SocketOpen 0] init) ! 0) =
     [[(''username'', [CHR ''a'', CHR 0x09, CHR ''b'']), (''room'', ''general'')]] \<and>
   \<not> is_word (CHR 0x09) \<and> CHR 0x09 \<noteq> CHR 0x20"
  by code_simp

subsection \<open>Timers\<close>

lemma handleTyping_open:
  assumes "socket s = Some g" and "socket_open s"
  shows "handleTyping s =
           Inr ((if trim (messageInput s) \<noteq> [] \<and> \<not> isTyping s
                 then s\<lparr>sendBtnDisabled := False, isTyping := True,
                        sockets := (sockets s)[g := (sockets s ! g)
                                     \<lparr>sent := sent (sockets s ! g) @ [typing_envelope]\<rparr>]\<rparr>
                 else s\<lparr>sendBtnDisabled := (trim (messageInput s) = [])\<rparr>)
                \<lparr>timers := filter (\<lambda>(h, _). typingTimeout s \<noteq> Some h) (timers s)
                             @ [(nextTimer s, 1000, StopTyping)],
                  nextTimer := Suc (nextTimer s),
                  typingTimeout := Some (nextTimer s)\<rparr>)"
proof -
  have f: "filter (\<lambda>(h, _). typingTimeout s \<noteq> Some h) (timers s) =
      (case typingTimeout s of None \<Rightarrow> timers s
       | Some t \<Rightarrow> filter (\<lambda>(h, _). h \<noteq> t) (timers s))"
    by (auto split: option.splits intro: filter_cong)
  show ?thesis
    using assms
    by (auto simp: handleTyping_def Let_def socket_open_def socket_send_def setTimeout_def
          clearTimeout_def case_prod_beta f split: option.splits)
qed


lemma timer_inv_cong:
  "timers s' = timers s \<Longrightarrow> nextTimer s' = nextTimer s \<Longrightarrow>
   typingTimeout s' = typingTimeout s \<Longrightarrow> timer_inv s' = timer_inv s"
  by (simp add: timer_inv_def)

lemma timer_inv_irrelevant [simp]:
  "timer_inv (socket_update f1 s) = timer_inv s"
  "timer_inv (currentUsername_update f2 s) = timer_inv s"
  "timer_inv (currentRoom_update f3 s) = timer_inv s"
  "timer_inv (isTyping_update f4 s) = timer_inv s"
  "timer_inv (sockets_update f5 s) = timer_inv s"
  "timer_inv (uncaught_update f6 s) = timer_inv s"
  "timer_inv (alerts_update f7 s) = timer_inv s"
  "timer_inv (usernameInput_update f8 s) = timer_inv s"
  "timer_inv (usernameBorder_update f9 s) = timer_inv s"
  "timer_inv (roomSelect_update f10 s) = timer_inv s"
  "timer_inv (messageInput_update f11 s) = timer_inv s"
  "timer_inv (sendBtnDisabled_update f12 s) = timer_inv s"
  "timer_inv (loginScreenHidden_update f13 s) = timer_inv s"
  "timer_inv (chatScreenHidden_update f14 s) = timer_inv s"
  "timer_inv (messagesList_update f15 s) = timer_inv s"
  "timer_inv (typingIndicatorHidden_update f16 s) = timer_inv s"
  "timer_inv (typingText_update f17 s) = timer_inv s"
  "timer_inv (onlineCount_update f18 s) = timer_inv s"
  "timer_inv (currentRoomEl_update f19 s) = timer_inv s"
  "timer_inv (statusText_update f20 s) = timer_inv s"
  "timer_inv (connectionStatusHidden_update f21 s) = timer_inv s"
  "timer_inv (spinnerDisplay_update f22 s) = timer_inv s"
  "timer_inv (roomModalHidden_update f23 s) = timer_inv s"
  by (simp_all add: timer_inv_def)

lemma timer_inv_setTimeout: "timer_inv s \<Longrightarrow> timer_inv (snd (setTimeout cb d s))"
  by (auto simp: timer_inv_def setTimeout_def less_Suc_eq)

lemma timer_inv_clearTimeout: "timer_inv s \<Longrightarrow> timer_inv (clearTimeout t s)"
  by (auto simp: timer_inv_def clearTimeout_def)

lemma timer_inv_connectWebSocket [simp]: "timer_inv (connectWebSocket s) = timer_inv s"
  by (rule timer_inv_cong) (simp_all add: connectWebSocket_def showConnectionStatus_def Let_def)

lemma timer_inv_socket_close [simp]: "timer_inv (socket_close s) = timer_inv s"
  by (rule timer_inv_cong)
     (simp_all add: socket_close_def split: option.splits ready_state.splits)

lemma timer_inv_set_readyState [simp]: "timer_inv (set_readyState j r s) = timer_inv s"
  by (rule timer_inv_cong) (simp_all add: set_readyState_def)

lemma timer_inv_showConnectionStatus [simp]:
  "timer_inv (showConnectionStatus m b s) = timer_inv s"
  by (rule timer_inv_cong) (simp_all add: showConnectionStatus_def)

lemma timer_inv_addChatMessage [simp]: "timer_inv (addChatMessage u m ts now s) = timer_inv s"
  by (rule timer_inv_cong) (simp_all add: addChatMessage_def Let_def)

lemma timer_inv_updateTypingIndicator [simp]:
  "timer_inv (updateTypingIndicator us s) = timer_inv s"
  by (cases "(us, s)" rule: updateTypingIndicator.cases) (simp_all del: String.simps)

lemma timer_inv_handleMessage [simp]: "timer_inv (handleMessage d now s) = timer_inv s"
  by (cases d)
     (simp_all add: addSystemMessage_def updateOnlineCount_def Let_def del: String.simps)

lemma timer_inv_settle_socket_send:
  "timer_inv (settle (socket_send env s)) = timer_inv s"
proof (cases "socket_send env s")
  case (Inl x)
  then show ?thesis
    using socket_send_Inl [of env s "fst x" "snd x"] by (cases x) (simp add: settle_def)
next
  case (Inr s')
  then show ?thesis
    using socket_send_Inr [of env s s'] by (simp add: timer_inv_def)
qed

lemma timer_inv_settle_bind:
  assumes "timer_inv (settle r)" and "\<And>s1. timer_inv s1 \<Longrightarrow> timer_inv (k s1)"
  shows "timer_inv (settle (case r of Inl x \<Rightarrow> Inl x | Inr s1 \<Rightarrow> Inr (k s1)))"
proof (cases r)
  case (Inl x)
  with assms(1) show ?thesis by simp
next
  case (Inr s1)
  with assms show ?thesis by simp
qed

lemma timer_inv_handleJoin: "timer_inv s \<Longrightarrow> timer_inv (settle (handleJoin s))"
  by (auto simp: handleJoin_def Let_def updateRoomUI_def settle_def timer_inv_setTimeout
        split: option.splits)

lemma timer_inv_handleTyping: "timer_inv s \<Longrightarrow> timer_inv (settle (handleTyping s))"
proof (cases "socket_open s")
  case False
  assume "timer_inv s"
  with False show ?thesis
    by (auto simp: handleTyping_def Let_def socket_open_def split: option.splits)
next
  case True
  assume inv: "timer_inv s"
  from True obtain g where g: "socket s = Some g" by (auto simp: socket_open_def split: option.splits)
  from inv have "\<forall>h \<in> fst ` set (filter (\<lambda>(h, _). typingTimeout s \<noteq> Some h) (timers s)). h < nextTimer s"
    by (auto simp: timer_inv_def)
  then show ?thesis
    unfolding handleTyping_open [OF g True]
    by (auto simp: timer_inv_def less_Suc_eq)
qed

lemma timer_inv_sendMessage: "timer_inv s \<Longrightarrow> timer_inv (settle (sendMessage now s))"
proof (cases "trim (messageInput s) = [] \<or> \<not> socket_open s")
  case True
  assume "timer_inv s"
  with True show ?thesis by (auto simp: sendMessage_def Let_def)
next
  case False
  assume inv: "timer_inv s"
  let ?k = "\<lambda>s4. case typingTimeout s4 of None \<Rightarrow> s4 | Some t \<Rightarrow> clearTimeout t s4"
  have k: "\<And>s4. timer_inv s4 \<Longrightarrow> timer_inv (?k s4)"
    by (simp add: timer_inv_clearTimeout split: option.splits)
  let ?k1 = "\<lambda>s1. let s2 = addChatMessage (currentUsername s1) (trim (messageInput s))
                               (Some (getCurrentTime now)) now s1;
                        s3 = s2\<lparr>messageInput := [], sendBtnDisabled := True\<rparr>
                    in settle (case (if isTyping s3
                             then socket_send stop_typing_envelope (s3\<lparr>isTyping := False\<rparr>)
                             else Inr s3) of
                         Inl x \<Rightarrow> Inl x
                       | Inr s4 \<Rightarrow> Inr (?k s4))"
  have k1: "\<And>s1. timer_inv s1 \<Longrightarrow> timer_inv (?k1 s1)"
    unfolding Let_def
    by (rule timer_inv_settle_bind [where k = ?k, OF _ k])
       (simp add: timer_inv_settle_socket_send)
  obtain g where g: "socket s = Some g" "socket_open s"
    using False by (auto simp: socket_open_def split: option.splits)
  from socket_send_open [OF g, of "chat_envelope (trim (messageInput s))"]
  obtain s1 where s1: "socket_send (chat_envelope (trim (messageInput s))) s = Inr s1"
    by blast
  have "timer_inv s1"
    using timer_inv_settle_socket_send [of "chat_envelope (trim (messageInput s))" s] s1 inv
    by simp
  from k1 [OF this] False s1 show ?thesis
    by (simp add: sendMessage_def Let_def)
qed


lemma timer_inv_room_item_click:
  "timer_inv s \<Longrightarrow> timer_inv (settle (room_item_click room s))"
  by (auto simp: room_item_click_def switchRoom_def updateRoomUI_def closeRoomModal_def
        settle_def split: option.splits)

lemma timer_inv_onopen: "timer_inv s \<Longrightarrow> timer_inv (settle (onopen s))"
  unfolding onopen_def
  by (rule timer_inv_settle_bind)
     (simp_all add: timer_inv_settle_socket_send timer_inv_setTimeout)

lemma timer_inv_run_callback:
  "timer_inv s \<Longrightarrow> timer_inv (settle (run_callback cb s))"
  by (cases cb) (simp_all add: timer_inv_settle_socket_send)

lemma timer_inv_step: "timer_inv s \<Longrightarrow> timer_inv (step e s)"
proof (cases e)
  case JoinClick
  assume "timer_inv s"
  with JoinClick show ?thesis by (simp add: timer_inv_handleJoin)
next
  case (MessageInput x)
  assume "timer_inv s"
  then have "timer_inv (s\<lparr>messageInput := collapse_spaces x\<rparr>)" by simp
  with MessageInput show ?thesis by (simp add: timer_inv_handleTyping)
next
  case (SendClick now)
  assume "timer_inv s"
  with SendClick show ?thesis by (simp add: timer_inv_sendMessage)
next
  case (RoomItemClick room)
  assume "timer_inv s"
  with RoomItemClick show ?thesis by (simp add: timer_inv_room_item_click)
next
  case (LeaveClick b)
  assume "timer_inv s"
  with LeaveClick show ?thesis by (simp add: handleLeave_def)
next
  case (SocketOpen j)
  assume "timer_inv s"
  with SocketOpen show ?thesis by (simp add: timer_inv_onopen)
next
  case (SocketMessage j frame now)
  assume "timer_inv s"
  with SocketMessage show ?thesis
    by (simp add: onmessage_def settle_def split: option.splits)
next
  case (SocketError j)
  assume "timer_inv s"
  with SocketError show ?thesis by (simp add: onerror_def)
next
  case (SocketClose j)
  assume "timer_inv s"
  with SocketClose show ?thesis by (simp add: onclose_def timer_inv_setTimeout)
next
  case (TimerFire t)
  assume "timer_inv s"
  with TimerFire show ?thesis
    by (auto simp: timer_inv_run_callback timer_inv_clearTimeout split: option.splits)
qed (simp_all add: openRoomModal_def closeRoomModal_def)

lemma timer_inv_init: "timer_inv init"
  by (simp add: timer_inv_def init_def)

lemma timer_inv_exec: "timer_inv s \<Longrightarrow> timer_inv (exec es s)"
  by (induction es arbitrary: s) (simp_all add: timer_inv_step)

lemma timer_inv_reachable: "timer_inv (exec es init)"
  by (rule timer_inv_exec) (rule timer_inv_init)


lemma socket_open_messageInput [simp]:
  "socket_open (s\<lparr>messageInput := x\<rparr>) = socket_open s"
  by (cases "socket s") (simp_all add: socket_open_def)

lemma step_MessageInput_open:
  assumes "timer_inv s" and "socket s = Some g" and "socket_open s"
  shows "(trim (collapse_spaces x) \<noteq> [] \<and> \<not> isTyping s \<longrightarrow>
            sent (sockets (step (MessageInput x) s) ! g) = sent (sockets s ! g) @ [typing_envelope] \<and>
            isTyping (step (MessageInput x) s))"
    and "(trim (collapse_spaces x) = [] \<or> isTyping s \<longrightarrow>
            sockets (step (MessageInput x) s) = sockets s \<and>
            isTyping (step (MessageInput x) s) = isTyping s)"
    and "timers (step (MessageInput x) s) =
           filter (\<lambda>(h, _). typingTimeout s \<noteq> Some h) (timers s) @ [(nextTimer s, 1000, StopTyping)]"
    and "typingTimeout (step (MessageInput x) s) = Some (nextTimer s)"
    and "\<forall>t. typingTimeout s = Some t \<longrightarrow> map_of (timers (step (MessageInput x) s)) t = None"
    and "map_of (timers (step (MessageInput x) s)) (nextTimer s) = Some (1000, StopTyping)"
proof -
  let ?s0 = "s\<lparr>messageInput := collapse_spaces x\<rparr>"
  have g: "socket ?s0 = Some g" "socket_open ?s0" "g < length (sockets s)"
    using assms(2,3) by (auto simp: socket_open_def)
  note eq = handleTyping_open [OF g(1,2)]
  show "trim (collapse_spaces x) \<noteq> [] \<and> \<not> isTyping s \<longrightarrow>
      sent (sockets (step (MessageInput x) s) ! g) = sent (sockets s ! g) @ [typing_envelope] \<and>
      isTyping (step (MessageInput x) s)"
    using g(3) by (simp add: eq)
  show "trim (collapse_spaces x) = [] \<or> isTyping s \<longrightarrow>
      sockets (step (MessageInput x) s) = sockets s \<and>
      isTyping (step (MessageInput x) s) = isTyping s"
    by (auto simp: eq)
  show tm: "timers (step (MessageInput x) s) =
      filter (\<lambda>(h, _). typingTimeout s \<noteq> Some h) (timers s) @ [(nextTimer s, 1000, StopTyping)]"
    by (simp add: eq)
  show "typingTimeout (step (MessageInput x) s) = Some (nextTimer s)"
    by (simp add: eq)
  have fresh: "nextTimer s \<notin> fst ` set (timers s)"
    using assms(1) by (auto simp: timer_inv_def)
  show "\<forall>t. typingTimeout s = Some t \<longrightarrow> map_of (timers (step (MessageInput x) s)) t = None"
  proof (intro allI impI)
    fix t assume t: "typingTimeout s = Some t"
    with assms(1) have "t \<noteq> nextTimer s" by (auto simp: timer_inv_def)
    moreover have "t \<notin> fst ` set (filter (\<lambda>(h, _). typingTimeout s \<noteq> Some h) (timers s))"
      using t by auto
    then have "map_of (filter (\<lambda>(h, _). typingTimeout s \<noteq> Some h) (timers s)) t = None"
      by (rule map_of_eq_None_iff [THEN iffD2])
    ultimately show "map_of (timers (step (MessageInput x) s)) t = None"
      unfolding tm by (simp add: map_add_def)
  qed
  have "nextTimer s \<notin> fst ` set (filter (\<lambda>(h, _). typingTimeout s \<noteq> Some h) (timers s))"
    using fresh by auto
  then have "map_of (filter (\<lambda>(h, _). typingTimeout s \<noteq> Some h) (timers s)) (nextTimer s) = None"
    by (rule map_of_eq_None_iff [THEN iffD2])
  then show "map_of (timers (step (MessageInput x) s)) (nextTimer s) = Some (1000, StopTyping)"
    unfolding tm by (simp add: map_add_def)
qed

lemma step_MessageInput_not_open:
  assumes "\<not> socket_open s"
  shows "sockets (step (MessageInput x) s) = sockets s \<and>
         timers (step (MessageInput x) s) = timers s \<and>
         typingTimeout (step (MessageInput x) s) = typingTimeout s \<and>
         isTyping (step (MessageInput x) s) = isTyping s"
  using assms
  by (auto simp: handleTyping_def Let_def socket_open_def split: option.splits)

lemma fire_StopTyping_idle:
  assumes "map_of (timers s) t = Some (d, StopTyping)" and "\<not> isTyping s"
  shows "step (TimerFire t) s = clearTimeout t s"
  using assms by (simp add: clearTimeout_def)

lemma fire_StopTyping_typing:
  assumes "map_of (timers s) t = Some (d, StopTyping)" and "isTyping s"
    and "socket s = Some g" and "socket_open s"
  shows "sent (sockets (step (TimerFire t) s) ! g) = sent (sockets s ! g) @ [stop_typing_envelope] \<and>
         \<not> isTyping (step (TimerFire t) s)"
  using assms
  by (auto simp: clearTimeout_def socket_send_def socket_open_def)

text \<open>
  Claim C5, as amended. The typing debounce uses a 1-second idle window while the socket is
  open: in every state the client reaches with an open current socket, an input event with
  a non-empty trimmed message and \<open>isTyping\<close> clear sends a typing envelope and sets
  \<open>isTyping\<close> (any other input event sends nothing); every such input event cancels the
  pending stop-typing timeout and schedules a new one with a delay of 1000 ms, which is
  then the only pending timeout under its handle. When the socket is absent or not open,
  an input event sends nothing and touches no timeout. When a stop-typing timeout fires,
  it sends nothing unless \<open>isTyping\<close> is still set; if it is set and the socket is open,
  it sends a stop_typing envelope and clears \<open>isTyping\<close>.
\<close>

theorem typing_debounce:
  "(socket (exec es init) = Some g \<and> socket_open (exec es init) \<longrightarrow>
      (trim (collapse_spaces x) \<noteq> [] \<and> \<not> isTyping (exec es init) \<longrightarrow>
         sent (sockets (step (MessageInput x) (exec es init)) ! g) =
           sent (sockets (exec es init) ! g) @ [typing_envelope] \<and>
         isTyping (step (MessageInput x) (exec es init))) \<and>
      (trim (collapse_spaces x) = [] \<or> isTyping (exec es init) \<longrightarrow>
         sockets (step (MessageInput x) (exec es init)) = sockets (exec es init) \<and>
         isTyping (step (MessageInput x) (exec es init)) = isTyping (exec es init)) \<and>
      timers (step (MessageInput x) (exec es init)) =
        filter (\<lambda>(h, _). typingTimeout (exec es init) \<noteq> Some h) (timers (exec es init))
        @ [(nextTimer (exec es init), 1000, StopTyping)] \<and>
      typingTimeout (step (MessageInput x) (exec es init)) = Some (nextTimer (exec es init)) \<and>
      (\<forall>t. typingTimeout (exec es init) = Some t \<longrightarrow>
           map_of (timers (step (MessageInput x) (exec es init))) t = None) \<and>
      map_of (timers (step (MessageInput x) (exec es init))) (nextTimer (exec es init)) =
        Some (1000, StopTyping)) \<and>
   (\<not> socket_open s0 \<longrightarrow>
      sockets (step (MessageInput x0) s0) = sockets s0 \<and>
      timers (step (MessageInput x0) s0) = timers s0 \<and>
      typingTimeout (step (MessageInput x0) s0) = typingTimeout s0 \<and>
      isTyping (step (MessageInput x0) s0) = isTyping s0) \<and>
   (map_of (timers s1) t1 = Some (d1, StopTyping) \<and> \<not> isTyping s1 \<longrightarrow>
      step (TimerFire t1) s1 = clearTimeout t1 s1 \<and>
      sockets (step (TimerFire t1) s1) = sockets s1) \<and>
   (map_of (timers s2) t2 = Some (d2, StopTyping) \<and> isTyping s2 \<and> socket s2 = Some g2 \<and>
    socket_open s2 \<longrightarrow>
      sent (sockets (step (TimerFire t2) s2) ! g2) = sent (sockets s2 ! g2) @ [stop_typing_envelope] \<and>
      \<not> isTyping (step (TimerFire t2) s2))"
proof -
  let ?s = "exec es init"
  have inv: "timer_inv ?s" by (rule timer_inv_reachable)
  have A: "socket ?s = Some g \<and> socket_open ?s \<longrightarrow>
      (trim (collapse_spaces x) \<noteq> [] \<and> \<not> isTyping ?s \<longrightarrow>
         sent (sockets (step (MessageInput x) ?s) ! g) = sent (sockets ?s ! g) @ [typing_envelope] \<and>
         isTyping (step (MessageInput x) ?s)) \<and>
      (trim (collapse_spaces x) = [] \<or> isTyping ?s \<longrightarrow>
         sockets (step (MessageInput x) ?s) = sockets ?s \<and>
         isTyping (step (MessageInput x) ?s) = isTyping ?s) \<and>
      timers (step (MessageInput x) ?s) =
        filter (\<lambda>(h, _). typingTimeout ?s \<noteq> Some h) (timers ?s)
        @ [(nextTimer ?s, 1000, StopTyping)] \<and>
      typingTimeout (step (MessageInput x) ?s) = Some (nextTimer ?s) \<and>
      (\<forall>t. typingTimeout ?s = Some t \<longrightarrow> map_of (timers (step (MessageInput x) ?s)) t = None) \<and>
      map_of (timers (step (MessageInput x) ?s)) (nextTimer ?s) = Some (1000, StopTyping)"
  proof
    assume h: "socket ?s = Some g \<and> socket_open ?s"
    note f = step_MessageInput_open [OF inv conjunct1 [OF h] conjunct2 [OF h], of x]
    show "(trim (collapse_spaces x) \<noteq> [] \<and> \<not> isTyping ?s \<longrightarrow>
         sent (sockets (step (MessageInput x) ?s) ! g) = sent (sockets ?s ! g) @ [typing_envelope] \<and>
         isTyping (step (MessageInput x) ?s)) \<and>
      (trim (collapse_spaces x) = [] \<or> isTyping ?s \<longrightarrow>
         sockets (step (MessageInput x) ?s) = sockets ?s \<and>
         isTyping (step (MessageInput x) ?s) = isTyping ?s) \<and>
      timers (step (MessageInput x) ?s) =
        filter (\<lambda>(h, _). typingTimeout ?s \<noteq> Some h) (timers ?s)
        @ [(nextTimer ?s, 1000, StopTyping)] \<and>
      typingTimeout (step (MessageInput x) ?s) = Some (nextTimer ?s) \<and>
      (\<forall>t. typingTimeout ?s = Some t \<longrightarrow> map_of (timers (step (MessageInput x) ?s)) t = None) \<and>
      map_of (timers (step (MessageInput x) ?s)) (nextTimer ?s) = Some (1000, StopTyping)"
      by (intro conjI f)
  qed
  have B: "\<not> socket_open s0 \<longrightarrow>
      sockets (step (MessageInput x0) s0) = sockets s0 \<and>
      timers (step (MessageInput x0) s0) = timers s0 \<and>
      typingTimeout (step (MessageInput x0) s0) = typingTimeout s0 \<and>
      isTyping (step (MessageInput x0) s0) = isTyping s0"
    by (rule impI) (rule step_MessageInput_not_open)
  have C: "map_of (timers s1) t1 = Some (d1, StopTyping) \<and> \<not> isTyping s1 \<longrightarrow>
      step (TimerFire t1) s1 = clearTimeout t1 s1 \<and>
      sockets (step (TimerFire t1) s1) = sockets s1"
  proof
    assume h: "map_of (timers s1) t1 = Some (d1, StopTyping) \<and> \<not> isTyping s1"
    have e: "step (TimerFire t1) s1 = clearTimeout t1 s1"
      using fire_StopTyping_idle [OF conjunct1 [OF h] conjunct2 [OF h]] .
    moreover have "sockets (clearTimeout t1 s1) = sockets s1"
      by (simp add: clearTimeout_def)
    ultimately show "step (TimerFire t1) s1 = clearTimeout t1 s1 \<and>
      sockets (step (TimerFire t1) s1) = sockets s1"
      by (simp only: simp_thms)
  qed
  have D: "map_of (timers s2) t2 = Some (d2, StopTyping) \<and> isTyping s2 \<and> socket s2 = Some g2 \<and>
      socket_open s2 \<longrightarrow>
      sent (sockets (step (TimerFire t2) s2) ! g2) = sent (sockets s2 ! g2) @ [stop_typing_envelope] \<and>
      \<not> isTyping (step (TimerFire t2) s2)"
  proof
    assume h: "map_of (timers s2) t2 = Some (d2, StopTyping) \<and> isTyping s2 \<and> socket s2 = Some g2 \<and>
      socket_open s2"
    then show "sent (sockets (step (TimerFire t2) s2) ! g2) = sent (sockets s2 ! g2) @ [stop_typing_envelope] \<and>
      \<not> isTyping (step (TimerFire t2) s2)"
      by (intro fire_StopTyping_typing [of s2 t2 d2 g2]) (simp_all only: simp_thms)
  qed
  show ?thesis by (intro conjI A B C D)
qed

theorem typing_debounce_witness:
  "socket joined = Some 0 \<and> socket_open joined \<and> trim (collapse_spaces ''hi'') \<noteq> [] \<and>
   \<not> isTyping joined \<and>
   sent (sockets (step (MessageInput ''hi'') joined) ! 0) =
     [join_envelope ''ann'' ''general'', typing_envelope] \<and>
   timers (step (MessageInput ''hi'') joined) = [(1, 2000, HideStatus), (2, 1000, StopTyping)] \<and>
   typingTimeout chatting = Some 2 \<and>
   timers (step (MessageInput ''hi!'') chatting) = [(1, 2000, HideStatus), (3, 1000, StopTyping)] \<and>
   map_of (timers (step (MessageInput ''hi!'') chatting)) 2 = None \<and>
   \<not> socket_open (exec [UsernameInput ''ann'', JoinClick] init) \<and>
   timers (step (MessageInput ''hi'') (exec [UsernameInput ''ann'', JoinClick] init)) = [] \<and>
   map_of (timers (step (MessageInput '' '') joined)) 2 = Some (1000, StopTyping) \<and>
   \<not> isTyping (step (MessageInput '' '') joined) \<and>
   sockets (step (TimerFire 2) (step (MessageInput '' '') joined)) = sockets joined \<and>
   map_of (timers chatting) 2 = Some (1000, StopTyping) \<and> isTyping chatting \<and>
   socket chatting = Some 0 \<and> socket_open chatting \<and>
   sent (sockets (step (TimerFire 2) chatting) ! 0) =
     [join_envelope ''ann'' ''general'', typing_envelope, stop_typing_envelope] \<and>
   \<not> isTyping (step (TimerFire 2) chatting)"
proof -
  let ?j = "[UsernameInput ''ann'', JoinClick, SocketOpen 0]"
  let ?c = "[UsernameInput ''ann'', JoinClick, SocketOpen 0, MessageInput ''hi'']"
  let ?s0 = "exec [UsernameInput ''ann'', JoinClick] init"
  let ?s1 = "step (MessageInput '' '') joined"
  have j: "joined = exec ?j init" by (simp only: joined_def)
  have c: "chatting = exec ?c init" by (simp only: chatting_def)
  have h1: "socket joined = Some 0 \<and> socket_open joined" by code_simp
  have h2: "trim (collapse_spaces ''hi'') \<noteq> [] \<and> \<not> isTyping joined" by code_simp
  have h3: "socket chatting = Some 0 \<and> socket_open chatting" by code_simp
  have h4: "typingTimeout chatting = Some 2" by code_simp
  have h5: "\<not> socket_open ?s0" by code_simp
  have h6: "map_of (timers ?s1) 2 = Some (1000, StopTyping) \<and> \<not> isTyping ?s1" by code_simp
  have h7: "map_of (timers chatting) 2 = Some (1000, StopTyping) \<and> isTyping chatting"
    by code_simp
  have v: "sent (sockets joined ! 0) = [join_envelope ''ann'' ''general'']"
    "timers joined = [(1, 2000, HideStatus)]" "nextTimer joined = 2" "typingTimeout joined = None"
    "timers chatting = [(1, 2000, HideStatus), (2, 1000, StopTyping)]" "nextTimer chatting = 3"
    "sent (sockets chatting ! 0) = [join_envelope ''ann'' ''general'', typing_envelope]"
    "timers ?s0 = []" "sockets ?s1 = sockets joined"
    by code_simp+
  from typing_debounce [of ?j 0 "''hi''" ?s0 "''hi''" ?s1 2 1000 chatting 2 1000 0]
    h1 h2 h5 h6 h7 h3
  have a: "sent (sockets (step (MessageInput ''hi'') joined) ! 0) =
        sent (sockets joined ! 0) @ [typing_envelope]"
    and b: "timers (step (MessageInput ''hi'') joined) =
        filter (\<lambda>(h, _). typingTimeout joined \<noteq> Some h) (timers joined)
        @ [(nextTimer joined, 1000, StopTyping)]"
    and d: "timers (step (MessageInput ''hi'') ?s0) = timers ?s0"
    and e: "sockets (step (TimerFire 2) ?s1) = sockets ?s1"
    and f: "sent (sockets (step (TimerFire 2) chatting) ! 0) =
        sent (sockets chatting ! 0) @ [stop_typing_envelope]"
    and g: "\<not> isTyping (step (TimerFire 2) chatting)"
    unfolding j [symmetric] by blast+
  from typing_debounce [of ?c 0 "''hi!''" ?s0 "''hi''" ?s1 2 1000 chatting 2 1000 0] h3 h4
  have k: "timers (step (MessageInput ''hi!'') chatting) =
        filter (\<lambda>(h, _). typingTimeout chatting \<noteq> Some h) (timers chatting)
        @ [(nextTimer chatting, 1000, StopTyping)]"
    and l: "map_of (timers (step (MessageInput ''hi!'') chatting)) 2 = None"
    unfolding c [symmetric] by blast+
  from h1 h2 h3 h4 h5 h6 h7 a b d e f g k l show ?thesis
    by (simp add: v del: step.simps exec.simps)
qed

text \<open>
  The claim as stated fails while the socket is connecting: the user has joined, the
  socket is not open yet, and an input event with a non-empty message and \<open>isTyping\<close>
  clear sends no typing envelope and schedules no timeout.
\<close>

theorem typing_while_connecting_counterexample:
  "trim (messageInput (step (MessageInput ''hi'') (exec [UsernameInput ''ann'', JoinClick] init))) = ''hi'' \<and>
   \<not> isTyping (exec [UsernameInput ''ann'', JoinClick] init) \<and>
   sockets (step (MessageInput ''hi'') (exec [UsernameInput ''ann'', JoinClick] init)) =
     [\<lparr>readyState = CONNECTING, sent = []\<rparr>] \<and>
   timers (step (MessageInput ''hi'') (exec [UsernameInput ''ann'', JoinClick] init)) = [] \<and>
   typingTimeout (step (MessageInput ''hi'') (exec [UsernameInput ''ann'', JoinClick] init)) = None \<and>
   \<not> isTyping (step (MessageInput ''hi'') (exec [UsernameInput ''ann'', JoinClick] init))"
  by code_simp

subsection \<open>The room relay: a broadcast stays in its room\<close>

lemma relay_inv_startup: "relay_inv startup"
  by (simp add: relay_inv_def startup_def)

lemma relay_inv_admit:
  assumes "relay_inv st" and "admit sock username room now st = Inr (i, st')"
  shows "relay_inv st'"
proof -
  from assms(2) have st': "st' =
      st\<lparr>connections := (connections st)(nextId st \<mapsto>
             \<lparr>c_socket = sock, c_username = username, c_room = room, c_joinedAt = now\<rparr>),
         members := (members st)(room := insert (nextId st) (members st room)),
         nextId := Suc (nextId st)\<rparr>"
    by (auto simp: admit_def split: if_splits)
  from assms(1) have fresh: "connections st (nextId st) = None"
    by (cases "connections st (nextId st)") (auto simp: relay_inv_def)
  with assms(1) have nowhere: "\<And>r. nextId st \<notin> members st r"
    by (simp add: relay_inv_def)
  show ?thesis
    unfolding relay_inv_def
  proof (intro conjI allI)
    fix j r
    show "j \<in> members st' r \<longleftrightarrow> (\<exists>c. connections st' j = Some c \<and> c_room c = r)"
      using assms(1) nowhere [of r] by (auto simp: st' relay_inv_def)
  next
    fix j c
    show "connections st' j = Some c \<longrightarrow> j < nextId st'"
      using assms(1) by (auto simp: st' relay_inv_def less_Suc_eq)
  qed
qed

lemma relay_inv_remove: "relay_inv st \<Longrightarrow> relay_inv (remove i st)"
  unfolding relay_inv_def remove_def
  by (cases "connections st i") auto

lemma relay_inv_broadcast [simp]: "relay_inv (broadcast room env x st) = relay_inv st"
  by (simp add: relay_inv_def broadcast_def)

lemma relay_inv_on_chat: "relay_inv st \<Longrightarrow> relay_inv (on_chat i m ts st)"
  by (simp add: on_chat_def split: option.splits)

lemma relay_inv_step: "relay_inv st \<Longrightarrow> relay_inv (relay_step e st)"
proof (cases e)
  case (Admit sock username room now)
  assume "relay_inv st"
  with Admit show ?thesis
    by (auto split: sum.splits intro: relay_inv_admit)
next
  case (Remove i)
  assume "relay_inv st"
  with Remove show ?thesis by (simp add: relay_inv_remove)
next
  case (ChatFrom i m ts)
  assume "relay_inv st"
  with ChatFrom show ?thesis by (simp add: relay_inv_on_chat)
next
  case (Break i)
  assume "relay_inv st"
  with Break show ?thesis by (simp add: relay_inv_def)
qed

lemma relay_inv_run: "relay_inv st \<Longrightarrow> relay_inv (relay_run es st)"
  by (induction es arbitrary: st) (simp_all add: relay_inv_step)

lemma relay_inv_reachable: "relay_inv (relay_run es startup)"
  by (rule relay_inv_run) (rule relay_inv_startup)

lemma delivered_on_chat:
  assumes "connections st sender = Some c"
  shows "delivered (on_chat sender message ts st) i =
           (if i \<in> membersOf (c_room c) st \<and> i \<notin> broken st
            then delivered st i @ [Chat (c_username c) message (Some ts)]
            else delivered st i)"
  using assms by (simp add: on_chat_def broadcast_def)

text \<open>
  Claim C1. In every state of the relay, a chat message sent on a connection of room A is
  written to every connection of room A, the sender included, and to no other connection:
  a member of another room is no member of room A and receives nothing. (A member of room
  A whose socket fails the write is the one exception the Room Broadcaster allows.)
\<close>

theorem broadcast_room_isolation:
  "connections (relay_run es startup) sender = Some c \<longrightarrow>
     sender \<in> membersOf (c_room c) (relay_run es startup) \<and>
     (\<forall>i. delivered (on_chat sender message ts (relay_run es startup)) i =
        (if i \<in> membersOf (c_room c) (relay_run es startup) \<and> i \<notin> broken (relay_run es startup)
         then delivered (relay_run es startup) i @ [Chat (c_username c) message (Some ts)]
         else delivered (relay_run es startup) i)) \<and>
     (\<forall>room i. room \<noteq> c_room c \<and> i \<in> membersOf room (relay_run es startup) \<longrightarrow>
        i \<notin> membersOf (c_room c) (relay_run es startup) \<and>
        delivered (on_chat sender message ts (relay_run es startup)) i =
          delivered (relay_run es startup) i)"
proof
  let ?st = "relay_run es startup"
  assume c: "connections ?st sender = Some c"
  have inv: "relay_inv ?st" by (rule relay_inv_reachable)
  have mem: "\<And>i room. i \<in> membersOf room ?st \<longleftrightarrow> (\<exists>c. connections ?st i = Some c \<and> c_room c = room)"
    using inv by (simp add: relay_inv_def membersOf_def)
  have one: "sender \<in> membersOf (c_room c) ?st"
    using c by (simp add: mem)
  have two: "\<forall>i. delivered (on_chat sender message ts ?st) i =
      (if i \<in> membersOf (c_room c) ?st \<and> i \<notin> broken ?st
       then delivered ?st i @ [Chat (c_username c) message (Some ts)] else delivered ?st i)"
    using delivered_on_chat [OF c] by blast
  have three: "\<forall>room i. room \<noteq> c_room c \<and> i \<in> membersOf room ?st \<longrightarrow>
      i \<notin> membersOf (c_room c) ?st \<and>
      delivered (on_chat sender message ts ?st) i = delivered ?st i"
  proof (intro allI impI)
    fix room i assume h: "room \<noteq> c_room c \<and> i \<in> membersOf room ?st"
    then have "i \<notin> membersOf (c_room c) ?st"
      by (auto simp: mem)
    then show "i \<notin> membersOf (c_room c) ?st \<and>
        delivered (on_chat sender message ts ?st) i = delivered ?st i"
      by (simp add: delivered_on_chat [OF c])
  qed
  from one two three
  show "sender \<in> membersOf (c_room c) ?st \<and>
     (\<forall>i. delivered (on_chat sender message ts ?st) i =
        (if i \<in> membersOf (c_room c) ?st \<and> i \<notin> broken ?st
         then delivered ?st i @ [Chat (c_username c) message (Some ts)]
         else delivered ?st i)) \<and>
     (\<forall>room i. room \<noteq> c_room c \<and> i \<in> membersOf room ?st \<longrightarrow>
        i \<notin> membersOf (c_room c) ?st \<and>
        delivered (on_chat sender message ts ?st) i = delivered ?st i)"
    by (intro conjI)
qed

lemma three_joined_facts:
  "connections three_joined 0 =
     Some \<lparr>c_socket = 10, c_username = ''Ada'', c_room = ''tech'', c_joinedAt = 0\<rparr>"
  "membersOf ''tech'' three_joined = {0, 2}"
  "membersOf ''fun'' three_joined = {1}"
  "broken three_joined = {}"
  "delivered three_joined = (\<lambda>_. [])"
  by (auto simp: three_joined_def startup_def admit_def valid_username_def rooms_def
        is_word_def membersOf_def)

theorem broadcast_room_isolation_witness:
  "connections three_joined 0 =
     Some \<lparr>c_socket = 10, c_username = ''Ada'', c_room = ''tech'', c_joinedAt = 0\<rparr> \<and>
   membersOf ''tech'' three_joined = {0, 2} \<and> membersOf ''fun'' three_joined = {1} \<and>
   ''fun'' \<noteq> ''tech'' \<and> 1 \<in> membersOf ''fun'' three_joined \<and>
   delivered (on_chat 0 ''hi'' ''10:00'' three_joined) 0 = [Chat ''Ada'' ''hi'' (Some ''10:00'')] \<and>
   delivered (on_chat 0 ''hi'' ''10:00'' three_joined) 2 = [Chat ''Ada'' ''hi'' (Some ''10:00'')] \<and>
   delivered (on_chat 0 ''hi'' ''10:00'' three_joined) 1 = []"
proof -
  let ?c = "\<lparr>c_socket = 10, c_username = ''Ada'', c_room = ''tech'', c_joinedAt = 0\<rparr>"
  let ?es = "[Admit 10 ''Ada'' ''tech'' 0, Admit 11 ''Bob'' ''fun'' 1, Admit 12 ''Cy'' ''tech'' 2]"
  have c: "connections (relay_run ?es startup) 0 = Some ?c"
    using three_joined_facts(1) by (simp only: three_joined_def)
  from broadcast_room_isolation [of ?es 0 ?c "''hi''" "''10:00''"] c
  have a: "\<forall>i. delivered (on_chat 0 ''hi'' ''10:00'' three_joined) i =
        (if i \<in> membersOf (c_room ?c) three_joined \<and> i \<notin> broken three_joined
         then delivered three_joined i @ [Chat (c_username ?c) ''hi'' (Some ''10:00'')]
         else delivered three_joined i)"
    and b: "\<forall>room i. room \<noteq> c_room ?c \<and> i \<in> membersOf room three_joined \<longrightarrow>
        i \<notin> membersOf (c_room ?c) three_joined \<and>
        delivered (on_chat 0 ''hi'' ''10:00'' three_joined) i = delivered three_joined i"
    unfolding three_joined_def [symmetric] by blast+
  have m: "1 \<in> membersOf ''fun'' three_joined"
    by (simp add: three_joined_facts)
  from b [rule_format, of "''fun''" 1] m
  have "delivered (on_chat 0 ''hi'' ''10:00'' three_joined) 1 = delivered three_joined 1"
    by simp
  with a m show ?thesis
    by (simp add: three_joined_facts)
qed

subsection \<open>Switching rooms\<close>

text \<open>
  Claim C6 fails on the code. \<open>switchRoom\<close> closes the socket in the variable \<open>socket\<close>
  and opens a fresh one, as its comment says, but the close event of the socket it closed
  runs \<open>onclose\<close>, whose reconnect is held back only when the chat screen is hidden, as it
  is after \<open>handleLeave\<close>: two seconds after a switch a second connection joins the new
  room. On the next switch only the newer of the two is closed. The older one stays open,
  still joined to the room that was left, and a chat frame of that room is rendered in the
  new room. When the reconnect comes before the socket of the switch has opened, that
  socket opens and never sends a join envelope, for \<open>onopen\<close> sends on the variable
  \<open>socket\<close>, which holds the next socket by then. And for a room \<open>roomConfig\<close> has no
  entry for, \<open>switchRoom\<close> changes \<open>currentRoom\<close>, throws, and leaves the socket open.
\<close>

theorem switchRoom_leaves_connection_behind:
  "sockets (exec two_switches init) =
     [\<lparr>readyState = CLOSED, sent = [[(''username'', ''ann''), (''room'', ''general'')]]\<rparr>,
      \<lparr>readyState = OPEN, sent = [[(''username'', ''ann''), (''room'', ''tech'')]]\<rparr>,
      \<lparr>readyState = CLOSING, sent = [[(''username'', ''ann''), (''room'', ''tech'')]]\<rparr>,
      \<lparr>readyState = OPEN, sent = [[(''username'', ''ann''), (''room'', ''fun'')]]\<rparr>] \<and>
   socket (exec two_switches init) = Some 3 \<and>
   currentRoom (exec two_switches init) = ''fun'' \<and>
   messagesList (exec two_switches init) = [] \<and>
   messagesList (step (SocketMessage 1 (Some (Chat ''bob'' ''tech talk'' (Some ''10:00''))) 0)
                   (exec two_switches init)) =
     [MessageDiv \<lparr>own = False, avatar = ''b'', usernameEl = ''bob'', timeEl = ''10:00'',
                  bubble = ''tech talk''\<rparr>] \<and>
   sockets (exec slow_switch init) =
     [\<lparr>readyState = CLOSED, sent = [[(''username'', ''ann''), (''room'', ''general'')]]\<rparr>,
      \<lparr>readyState = OPEN, sent = []\<rparr>,
      \<lparr>readyState = OPEN, sent = [[(''username'', ''ann''), (''room'', ''tech'')]]\<rparr>] \<and>
   socket (exec slow_switch init) = Some 2 \<and>
   uncaught (exec slow_switch init) = [InvalidStateError] \<and>
   sockets (step (RoomItemClick ''lobby'') joined) =
     [\<lparr>readyState = OPEN, sent = [[(''username'', ''ann''), (''room'', ''general'')]]\<rparr>] \<and>
   socket (step (RoomItemClick ''lobby'') joined) = Some 0 \<and>
   currentRoom joined = ''general'' \<and>
   currentRoom (step (RoomItemClick ''lobby'') joined) = ''lobby'' \<and>
   uncaught (step (RoomItemClick ''lobby'') joined) = [TypeError]"
  by code_simp

end
